theory Spec2Isabelle
  imports Main "HOL-Library.Word" "HOL-Library.Multiset"
begin

section \<open>Data model (pkg/models)\<close>

text \<open>
  Go's \<open>int\<close> and \<open>int64\<close> are 64-bit two's-complement integers on the 64-bit targets the
  scheduler is built for: they are words here, so \<open>+\<close> and \<open>-\<close> wrap around as in Go, and
  the comparisons of the source are the signed ones (\<open>\<le>s\<close>, \<open><s\<close>). A \<open>time.Time\<close> is an
  instant, an integer count of nanoseconds from the Unix epoch, so that the zero
  \<open>time.Time\<close> (the first instant of year 1) is \<open>zeroTime\<close>; a nil \<open>*time.Time\<close> is
  \<open>None\<close>. The string
  types \<open>JobState\<close>, \<open>AllocationState\<close> and \<open>GPUHealth\<close> stay strings. Fields that no
  scheduling decision reads (names, scripts, images, labels, telemetry, billing) are left out.
\<close>

type_synonym int64 = "64 word"
type_synonym time = int
type_synonym Duration = int

definition zeroTime :: time where
  "zeroTime = - 62135596800000000000"

type_synonym JobState = string

abbreviation JobStatePending :: JobState where "JobStatePending \<equiv> ''pending''"
abbreviation JobStateRunning :: JobState where "JobStateRunning \<equiv> ''running''"
abbreviation JobStateCompleted :: JobState where "JobStateCompleted \<equiv> ''completed''"
abbreviation JobStateFailed :: JobState where "JobStateFailed \<equiv> ''failed''"
abbreviation JobStatePreempted :: JobState where "JobStatePreempted \<equiv> ''preempted''"
abbreviation JobStateCancelled :: JobState where "JobStateCancelled \<equiv> ''cancelled''"

record Job =
  Job_ID :: string
  Job_TenantID :: string
  Job_State :: JobState
  Job_Priority :: int64
  Job_GPUCount :: int64
  Job_GPUMemoryMB :: int64
  Job_CPUCores :: int64
  Job_MemoryMB :: int64
  Job_GangScheduling :: bool
  Job_SubmittedAt :: time
  Job_ScheduledAt :: "time option"
  Job_StartedAt :: "time option"
  Job_CompletedAt :: "time option"
  Job_PreemptedCount :: int64

record Tenant =
  Tenant_ID :: string
  Tenant_MaxGPUs :: int64
  Tenant_MaxGPUMemoryMB :: int64
  Tenant_MaxCPUCores :: int64
  Tenant_MaxMemoryMB :: int64
  Tenant_MaxConcurrentJobs :: int64
  Tenant_CurrentGPUs :: int64
  Tenant_CurrentGPUMemory :: int64
  Tenant_CurrentCPUCores :: int64
  Tenant_CurrentMemory :: int64
  Tenant_CurrentJobs :: int64
  Tenant_AllowPreemption :: bool

type_synonym GPUHealth = string

abbreviation HealthHealthy :: GPUHealth where "HealthHealthy \<equiv> ''healthy''"
abbreviation HealthWarning :: GPUHealth where "HealthWarning \<equiv> ''warning''"
abbreviation HealthDegraded :: GPUHealth where "HealthDegraded \<equiv> ''degraded''"
abbreviation HealthUnhealthy :: GPUHealth where "HealthUnhealthy \<equiv> ''unhealthy''"

record GPU =
  GPU_ID :: string
  GPU_NodeID :: string
  GPU_Allocated :: bool
  GPU_AllocationID :: string
  GPU_JobID :: string
  GPU_TenantID :: string
  GPU_CoolingPeriod :: time
  GPU_ThermalThrottle :: bool
  GPU_Health :: GPUHealth

record Node =
  Node_ID :: string
  Node_AvailableGPUs :: int64
  Node_AvailableCPUCores :: int64
  Node_AvailableMemoryMB :: int64
  Node_Online :: bool
  Node_Schedulable :: bool
  Node_DrainingMode :: bool

type_synonym AllocationState = string

abbreviation AllocationActive :: AllocationState where "AllocationActive \<equiv> ''active''"
abbreviation AllocationPreempted :: AllocationState where "AllocationPreempted \<equiv> ''preempted''"
abbreviation AllocationCompleted :: AllocationState where "AllocationCompleted \<equiv> ''completed''"

record Allocation =
  Alloc_ID :: string
  Alloc_JobID :: string
  Alloc_TenantID :: string
  Alloc_State :: AllocationState
  Alloc_GPUIDs :: "string list"
  Alloc_NodeID :: string
  Alloc_CPUCores :: int64
  Alloc_MemoryMB :: int64
  Alloc_AllocatedAt :: time
  Alloc_PlannedDuration :: Duration
  Alloc_ActualDuration :: Duration
  Alloc_PreemptedAt :: "time option"
  Alloc_PreemptedBy :: string
  Alloc_PreemptionReason :: string
  Alloc_CompletedAt :: "time option"

record AllocationRequest =
  Req_JobID :: string
  Req_TenantID :: string
  Req_GPUCount :: int64
  Req_GPUMemoryMB :: int64
  Req_CPUCores :: int64
  Req_MemoryMB :: int64
  Req_GangScheduling :: bool

record AllocationResult =
  Res_Success :: bool
  Res_AllocationID :: string
  Res_GPUIDs :: "string list"
  Res_NodeID :: string
  Res_Message :: string
  Res_Timestamp :: time

text \<open>\<open>Time.Sub\<close> returns a \<open>Duration\<close>, saturated at the ends of the int64 range.\<close>

definition Sub :: "time \<Rightarrow> time \<Rightarrow> Duration" where
  "Sub t u = max (- 9223372036854775808) (min 9223372036854775807 (t - u))"

text \<open>Tenant.HasAvailableQuota and Tenant.UpdateUsage.\<close>

definition HasAvailableQuota :: "Tenant \<Rightarrow> int64 \<Rightarrow> int64 \<Rightarrow> int64 \<Rightarrow> int64 \<Rightarrow> bool" where
  "HasAvailableQuota t gpus gpuMemory cpus memory =
     (Tenant_CurrentGPUs t + gpus \<le>s Tenant_MaxGPUs t \<and>
      Tenant_CurrentGPUMemory t + gpuMemory \<le>s Tenant_MaxGPUMemoryMB t \<and>
      Tenant_CurrentCPUCores t + cpus \<le>s Tenant_MaxCPUCores t \<and>
      Tenant_CurrentMemory t + memory \<le>s Tenant_MaxMemoryMB t \<and>
      Tenant_CurrentJobs t + 1 \<le>s Tenant_MaxConcurrentJobs t)"

definition UpdateUsage :: "Tenant \<Rightarrow> int64 \<Rightarrow> int64 \<Rightarrow> int64 \<Rightarrow> int64 \<Rightarrow> int64 \<Rightarrow> Tenant" where
  "UpdateUsage t gpuDelta gpuMemDelta cpuDelta memDelta jobDelta =
     t\<lparr>Tenant_CurrentGPUs := Tenant_CurrentGPUs t + gpuDelta,
       Tenant_CurrentGPUMemory := Tenant_CurrentGPUMemory t + gpuMemDelta,
       Tenant_CurrentCPUCores := Tenant_CurrentCPUCores t + cpuDelta,
       Tenant_CurrentMemory := Tenant_CurrentMemory t + memDelta,
       Tenant_CurrentJobs := Tenant_CurrentJobs t + jobDelta\<rparr>"

text \<open>
  GPU.IsAvailable. \<open>time.Since(g.CoolingPeriod) > 0\<close> is \<open>now.Sub(g.CoolingPeriod) > 0\<close> for the
  clock reading \<open>now\<close>.
\<close>

definition IsAvailable :: "GPU \<Rightarrow> time \<Rightarrow> bool" where
  "IsAvailable g now =
     (\<not> GPU_Allocated g \<and> GPU_Health g = HealthHealthy \<and> \<not> GPU_ThermalThrottle g \<and>
      0 < Sub now (GPU_CoolingPeriod g))"

text \<open>Node.HasCapacity.\<close>

definition HasCapacity :: "Node \<Rightarrow> int64 \<Rightarrow> int64 \<Rightarrow> int64 \<Rightarrow> bool" where
  "HasCapacity n gpus cpus memoryMB =
     (Node_Online n \<and> Node_Schedulable n \<and> \<not> Node_DrainingMode n \<and>
      gpus \<le>s Node_AvailableGPUs n \<and> cpus \<le>s Node_AvailableCPUCores n \<and>
      memoryMB \<le>s Node_AvailableMemoryMB n)"

text \<open>Allocation.CalculateDuration, called with \<open>CompletedAt\<close> just set.\<close>

definition CalculateDuration :: "Allocation \<Rightarrow> Allocation" where
  "CalculateDuration a =
     (case Alloc_CompletedAt a of
        None \<Rightarrow> a
      | Some c \<Rightarrow> a\<lparr>Alloc_ActualDuration := Sub c (Alloc_AllocatedAt a)\<rparr>)"

section \<open>Errors (pkg/utils)\<close>

text \<open>
  The sentinel errors and error structs the scheduler core produces. \<open>Wrapped msg e\<close> is
  \<open>fmt.Errorf("msg: %w", e)\<close>, \<open>ErrMessage msg\<close> a bare \<open>fmt.Errorf(msg)\<close>, \<open>ErrDatabase\<close> any
  error of the database driver other than record-not-found, and \<open>Panic\<close> a run-time panic.
\<close>

datatype error =
    ErrInsufficientResources
  | ErrGangSchedulingFailed
  | ErrJobNotFound
  | ErrTenantNotFound
  | ErrGPUNotFound
  | ErrNodeNotFound
  | ErrAllocationNotFound
  | ErrDatabase
  | ErrMessage string
  | Wrapped string error
  | QuotaExceededError string string int64 int64 int64
  | QueueFullError int64
  | JobAlreadyInQueueError string
  | Panic string

text \<open>
  utils.IsResourceError: \<open>errors.Is\<close> follows the \<open>%w\<close> chain; no \<open>*InsufficientResourcesError\<close>
  is ever constructed by the core.
\<close>

fun IsResourceError :: "error \<Rightarrow> bool" where
  "IsResourceError ErrInsufficientResources = True"
| "IsResourceError (Wrapped msg e) = IsResourceError e"
| "IsResourceError _ = False"

fun IsQuotaExceeded :: "error \<Rightarrow> bool" where
  "IsQuotaExceeded (QuotaExceededError tenant resource requested quota current) = True"
| "IsQuotaExceeded (Wrapped msg e) = IsQuotaExceeded e"
| "IsQuotaExceeded _ = False"

section \<open>Repository (pkg/storage, PostgresRepository)\<close>

text \<open>
  One table per entity, a list of rows in the order the database returns them for a query
  without \<open>ORDER BY\<close>. \<open>Create\<close> inserts and fails on an existing primary key, \<open>Save\<close>
  (the \<open>Update...\<close> methods) replaces the row with the same key or inserts it, \<open>First\<close>
  (the \<open>Get...\<close> methods) returns record-not-found on a missing key. \<open>Save\<close> of a row whose
  primary key is the zero value, the empty string, is a \<open>Create\<close>: it fails when a row with
  the empty key exists (\<open>save_conflict\<close>). Every call may also fail in the driver:
  \<open>broken st op key\<close> says that the call \<open>op\<close> with argument \<open>key\<close> returns a database
  error and changes nothing.
\<close>

datatype RepoOp =
    OpCreateJob | OpGetJob | OpUpdateJob | OpListJobsByState
  | OpGetTenant | OpUpdateTenant
  | OpGetGPU | OpUpdateGPU | OpListGPUsByNode
  | OpGetNode | OpUpdateNode | OpListNodes
  | OpCreateAllocation | OpGetAllocation | OpUpdateAllocation | OpGetJobAllocations

record Store =
  jobs :: "Job list"
  tenants :: "Tenant list"
  gpus :: "GPU list"
  nodes :: "Node list"
  allocations :: "Allocation list"
  broken :: "RepoOp \<Rightarrow> string \<Rightarrow> bool"

definition first_row :: "('r \<Rightarrow> string) \<Rightarrow> string \<Rightarrow> 'r list \<Rightarrow> 'r option" where
  "first_row key k rows = find (\<lambda>r. key r = k) rows"

definition save_row :: "('r \<Rightarrow> string) \<Rightarrow> 'r \<Rightarrow> 'r list \<Rightarrow> 'r list" where
  "save_row key row rows =
     (if key row \<in> set (map key rows)
      then map (\<lambda>r. if key r = key row then row else r) rows
      else rows @ [row])"

definition save_conflict :: "('r \<Rightarrow> string) \<Rightarrow> 'r \<Rightarrow> 'r list \<Rightarrow> bool" where
  "save_conflict key row rows = (key row = [] \<and> [] \<in> set (map key rows))"

definition CreateJob :: "Store \<Rightarrow> Job \<Rightarrow> error + Store" where
  "CreateJob st job =
     (if broken st OpCreateJob (Job_ID job) \<or> Job_ID job \<in> set (map Job_ID (jobs st))
      then Inl ErrDatabase
      else Inr (st\<lparr>jobs := jobs st @ [job]\<rparr>))"

definition GetJob :: "Store \<Rightarrow> string \<Rightarrow> error + Job" where
  "GetJob st jobID =
     (if broken st OpGetJob jobID then Inl ErrDatabase
      else case first_row Job_ID jobID (jobs st) of
             None \<Rightarrow> Inl ErrJobNotFound
           | Some job \<Rightarrow> Inr job)"

definition UpdateJob :: "Store \<Rightarrow> Job \<Rightarrow> error + Store" where
  "UpdateJob st job =
     (if broken st OpUpdateJob (Job_ID job) \<or> save_conflict Job_ID job (jobs st)
      then Inl ErrDatabase
      else Inr (st\<lparr>jobs := save_row Job_ID job (jobs st)\<rparr>))"

definition ListJobsByState :: "Store \<Rightarrow> JobState \<Rightarrow> error + Job list" where
  "ListJobsByState st state =
     (if broken st OpListJobsByState state then Inl ErrDatabase
      else Inr (filter (\<lambda>j. Job_State j = state) (jobs st)))"

definition GetTenant :: "Store \<Rightarrow> string \<Rightarrow> error + Tenant" where
  "GetTenant st tenantID =
     (if broken st OpGetTenant tenantID then Inl ErrDatabase
      else case first_row Tenant_ID tenantID (tenants st) of
             None \<Rightarrow> Inl ErrTenantNotFound
           | Some tenant \<Rightarrow> Inr tenant)"

definition UpdateTenant :: "Store \<Rightarrow> Tenant \<Rightarrow> error + Store" where
  "UpdateTenant st tenant =
     (if broken st OpUpdateTenant (Tenant_ID tenant) \<or> save_conflict Tenant_ID tenant (tenants st)
      then Inl ErrDatabase
      else Inr (st\<lparr>tenants := save_row Tenant_ID tenant (tenants st)\<rparr>))"

definition GetGPU :: "Store \<Rightarrow> string \<Rightarrow> error + GPU" where
  "GetGPU st gpuID =
     (if broken st OpGetGPU gpuID then Inl ErrDatabase
      else case first_row GPU_ID gpuID (gpus st) of
             None \<Rightarrow> Inl ErrGPUNotFound
           | Some gpu \<Rightarrow> Inr gpu)"

definition UpdateGPU :: "Store \<Rightarrow> GPU \<Rightarrow> error + Store" where
  "UpdateGPU st gpu =
     (if broken st OpUpdateGPU (GPU_ID gpu) \<or> save_conflict GPU_ID gpu (gpus st)
      then Inl ErrDatabase
      else Inr (st\<lparr>gpus := save_row GPU_ID gpu (gpus st)\<rparr>))"

definition ListGPUsByNode :: "Store \<Rightarrow> string \<Rightarrow> error + GPU list" where
  "ListGPUsByNode st nodeID =
     (if broken st OpListGPUsByNode nodeID then Inl ErrDatabase
      else Inr (filter (\<lambda>g. GPU_NodeID g = nodeID) (gpus st)))"

definition GetNode :: "Store \<Rightarrow> string \<Rightarrow> error + Node" where
  "GetNode st nodeID =
     (if broken st OpGetNode nodeID then Inl ErrDatabase
      else case first_row Node_ID nodeID (nodes st) of
             None \<Rightarrow> Inl ErrNodeNotFound
           | Some node \<Rightarrow> Inr node)"

definition UpdateNode :: "Store \<Rightarrow> Node \<Rightarrow> error + Store" where
  "UpdateNode st node =
     (if broken st OpUpdateNode (Node_ID node) \<or> save_conflict Node_ID node (nodes st)
      then Inl ErrDatabase
      else Inr (st\<lparr>nodes := save_row Node_ID node (nodes st)\<rparr>))"

text \<open>ListNodes selects the rows with \<open>online = true\<close>.\<close>

definition ListNodes :: "Store \<Rightarrow> error + Node list" where
  "ListNodes st =
     (if broken st OpListNodes [] then Inl ErrDatabase
      else Inr (filter Node_Online (nodes st)))"

definition CreateAllocation :: "Store \<Rightarrow> Allocation \<Rightarrow> error + Store" where
  "CreateAllocation st allocation =
     (if broken st OpCreateAllocation (Alloc_ID allocation) \<or>
         Alloc_ID allocation \<in> set (map Alloc_ID (allocations st))
      then Inl ErrDatabase
      else Inr (st\<lparr>allocations := allocations st @ [allocation]\<rparr>))"

definition GetAllocation :: "Store \<Rightarrow> string \<Rightarrow> error + Allocation" where
  "GetAllocation st allocationID =
     (if broken st OpGetAllocation allocationID then Inl ErrDatabase
      else case first_row Alloc_ID allocationID (allocations st) of
             None \<Rightarrow> Inl ErrAllocationNotFound
           | Some allocation \<Rightarrow> Inr allocation)"

definition UpdateAllocation :: "Store \<Rightarrow> Allocation \<Rightarrow> error + Store" where
  "UpdateAllocation st allocation =
     (if broken st OpUpdateAllocation (Alloc_ID allocation) \<or> save_conflict Alloc_ID allocation (allocations st)
      then Inl ErrDatabase
      else Inr (st\<lparr>allocations := save_row Alloc_ID allocation (allocations st)\<rparr>))"

definition GetJobAllocations :: "Store \<Rightarrow> string \<Rightarrow> error + Allocation list" where
  "GetJobAllocations st jobID =
     (if broken st OpGetJobAllocations jobID then Inl ErrDatabase
      else Inr (filter (\<lambda>a. Alloc_JobID a = jobID) (allocations st)))"

section \<open>Priority queue (pkg/scheduler/core, Queue)\<close>

text \<open>
  A \<open>QueueItem\<close>; its \<open>Index\<close> field is the entry's position in the slice and is not
  stored. \<open>jobMap\<close> maps a job id to a pointer to the very entry held in \<open>items\<close>; the model
  keeps its key set.
\<close>

record QueueItem =
  QI_Job :: Job
  QI_Priority :: int64
  QI_EnqueuedAt :: time
  QI_AgingBoost :: int64

type_synonym PriorityQueue = "QueueItem list"

record Queue =
  items :: PriorityQueue
  jobMap :: "string set"
  maxSize :: int64

text \<open>PriorityQueue.Less compares two entries; \<open>Less\<close> is that comparison at two indices.\<close>

definition item_less :: "QueueItem \<Rightarrow> QueueItem \<Rightarrow> bool" where
  "item_less a b =
     (let totalPriorityI = QI_Priority a + QI_AgingBoost a;
          totalPriorityJ = QI_Priority b + QI_AgingBoost b
      in if totalPriorityI \<noteq> totalPriorityJ then totalPriorityJ <s totalPriorityI
         else QI_EnqueuedAt a < QI_EnqueuedAt b)"

definition Less :: "PriorityQueue \<Rightarrow> nat \<Rightarrow> nat \<Rightarrow> bool" where
  "Less pq i j = item_less (pq ! i) (pq ! j)"

definition Swap :: "PriorityQueue \<Rightarrow> nat \<Rightarrow> nat \<Rightarrow> PriorityQueue" where
  "Swap pq i j = pq[i := pq ! j, j := pq ! i]"

text \<open>
  The standard library's container/heap, which the queue is built on. In \<open>up\<close>, Go's
  \<open>(j - 1) / 2\<close> truncates towards zero, so it is 0 at \<open>j = 0\<close>, as the subtraction on
  \<open>nat\<close> is. The indices are positions of a slice, so \<open>down\<close>'s guard \<open>j1 < 0\<close> against
  overflow never fires.
\<close>

function up :: "PriorityQueue \<Rightarrow> nat \<Rightarrow> PriorityQueue" where
  "up h j =
     (let i = (j - 1) div 2
      in if i = j \<or> \<not> Less h j i then h else up (Swap h i j) i)"
  by pat_completeness auto
termination
  by (relation "measure (\<lambda>(h, j). j)") auto

function down :: "PriorityQueue \<Rightarrow> nat \<Rightarrow> nat \<Rightarrow> PriorityQueue" where
  "down h i n =
     (let j1 = 2 * i + 1
      in if n \<le> j1 then h
         else let j = (if j1 + 1 < n \<and> Less h (j1 + 1) j1 then j1 + 1 else j1)
              in if \<not> Less h j i then h else down (Swap h i j) j n)"
  by pat_completeness auto
termination
  by (relation "measure (\<lambda>(h, i, n). n - i)") auto

declare up.simps [simp del]
declare down.simps [simp del]

definition heap_Init :: "PriorityQueue \<Rightarrow> PriorityQueue" where
  "heap_Init h = fold (\<lambda>i h'. down h' i (length h)) (rev [0 ..< length h div 2]) h"

definition heap_Push :: "PriorityQueue \<Rightarrow> QueueItem \<Rightarrow> PriorityQueue" where
  "heap_Push h x = up (h @ [x]) (length (h @ [x]) - 1)"

text \<open>heap.Pop on a non-empty heap: the removed entry and the remaining heap.\<close>

definition heap_Pop :: "PriorityQueue \<Rightarrow> QueueItem \<times> PriorityQueue" where
  "heap_Pop h =
     (let n = length h - 1;
          h' = down (Swap h 0 n) 0 n
      in (h' ! n, take n h'))"

definition NewQueue :: "int64 \<Rightarrow> Queue" where
  "NewQueue m = \<lparr>items = heap_Init [], jobMap = {}, maxSize = m\<rparr>"

text \<open>Queue.Enqueue; \<open>now\<close> is the reading of \<open>time.Now()\<close>.\<close>

definition Enqueue :: "Queue \<Rightarrow> Job \<Rightarrow> time \<Rightarrow> error + Queue" where
  "Enqueue q job now =
     (if sint (maxSize q) \<le> int (length (items q)) then Inl (QueueFullError (maxSize q))
      else if Job_ID job \<in> jobMap q then Inl (JobAlreadyInQueueError (Job_ID job))
      else let item = \<lparr>QI_Job = job, QI_Priority = Job_Priority job,
                        QI_EnqueuedAt = now, QI_AgingBoost = 0\<rparr>
           in Inr (q\<lparr>items := heap_Push (items q) item,
                     jobMap := insert (Job_ID job) (jobMap q)\<rparr>))"

text \<open>Queue.Dequeue: the job returned (\<open>None\<close> for nil) and the queue afterwards.\<close>

definition Dequeue :: "Queue \<Rightarrow> Job option \<times> Queue" where
  "Dequeue q =
     (if length (items q) = 0 then (None, q)
      else let (item, h) = heap_Pop (items q)
           in (Some (QI_Job item),
               q\<lparr>items := h, jobMap := jobMap q - {Job_ID (QI_Job item)}\<rparr>))"

definition Peek :: "Queue \<Rightarrow> Job option" where
  "Peek q = (if length (items q) = 0 then None else Some (QI_Job (items q ! 0)))"

definition Size :: "Queue \<Rightarrow> nat" where
  "Size q = length (items q)"

definition IsEmpty :: "Queue \<Rightarrow> bool" where
  "IsEmpty q = (Size q = 0)"

definition ApplyAging :: "Queue \<Rightarrow> int64 \<Rightarrow> Duration \<Rightarrow> time \<Rightarrow> Queue" where
  "ApplyAging q agingFactor ageThreshold now =
     q\<lparr>items := heap_Init
          (map (\<lambda>item. if ageThreshold < Sub now (QI_EnqueuedAt item)
                        then item\<lparr>QI_AgingBoost := QI_AgingBoost item + agingFactor\<rparr>
                        else item) (items q))\<rparr>"

text \<open>
  The entries removed by \<open>n\<close> successive calls of Dequeue (the call on an empty queue
  removes nothing and the queue stays empty), and the jobs those calls return.
\<close>

fun removed :: "nat \<Rightarrow> Queue \<Rightarrow> QueueItem list" where
  "removed 0 q = []"
| "removed (Suc n) q =
     (if length (items q) = 0 then []
      else fst (heap_Pop (items q)) # removed n (snd (Dequeue q)))"

fun Dequeue_n :: "nat \<Rightarrow> Queue \<Rightarrow> Job list" where
  "Dequeue_n 0 q = []"
| "Dequeue_n (Suc n) q =
     (case Dequeue q of
        (None, q') \<Rightarrow> []
      | (Some job, q') \<Rightarrow> job # Dequeue_n n q')"

text \<open>
  The queues built from NewQueue by enqueueing and dequeueing jobs and by aging.
\<close>

inductive reachable :: "Queue \<Rightarrow> bool" where
  reach_New: "reachable (NewQueue m)"
| reach_Enqueue: "reachable q \<Longrightarrow> Enqueue q job now = Inr q' \<Longrightarrow> reachable q'"
| reach_Dequeue: "reachable q \<Longrightarrow> reachable (snd (Dequeue q))"
| reach_Aging: "reachable q \<Longrightarrow> reachable (ApplyAging q agingFactor ageThreshold now)"

text \<open>
  The effective priority of an entry, priority plus aging boost, as a number; and the
  64-bit sum that Less computes for it, read as a signed number.
\<close>

definition effective_priority :: "QueueItem \<Rightarrow> int" where
  "effective_priority a = sint (QI_Priority a) + sint (QI_AgingBoost a)"

definition computed_priority :: "QueueItem \<Rightarrow> int" where
  "computed_priority a = sint (QI_Priority a + QI_AgingBoost a)"

text \<open>
  The heap order on the first \<open>n\<close> entries of a slice: no entry is before its parent.
  While \<open>down\<close> and \<open>up\<close> run, the order holds except at one position, whose
  parent still is not after its children.
\<close>

definition heap_ok :: "PriorityQueue \<Rightarrow> nat \<Rightarrow> bool" where
  "heap_ok h n = (\<forall>c. 0 < c \<and> c < n \<longrightarrow> \<not> item_less (h ! c) (h ! ((c - 1) div 2)))"

definition heap_except_down :: "PriorityQueue \<Rightarrow> nat \<Rightarrow> nat \<Rightarrow> bool" where
  "heap_except_down h n i =
     (\<forall>c. 0 < c \<and> c < n \<longrightarrow>
        ((c - 1) div 2 \<noteq> i \<longrightarrow> \<not> item_less (h ! c) (h ! ((c - 1) div 2))) \<and>
        ((c - 1) div 2 = i \<and> 0 < i \<longrightarrow> \<not> item_less (h ! c) (h ! ((i - 1) div 2))))"

definition heap_except_up :: "PriorityQueue \<Rightarrow> nat \<Rightarrow> nat \<Rightarrow> bool" where
  "heap_except_up h n j =
     (\<forall>c. 0 < c \<and> c < n \<longrightarrow>
        (c \<noteq> j \<longrightarrow> \<not> item_less (h ! c) (h ! ((c - 1) div 2))) \<and>
        ((c - 1) div 2 = j \<and> 0 < j \<longrightarrow> \<not> item_less (h ! c) (h ! ((j - 1) div 2))))"

text \<open>
  While heap.Init runs, the heap order holds below position \<open>k\<close>: between every entry
  whose parent is at \<open>k\<close> or later and that parent; and, while \<open>down\<close> runs inside it,
  except at one position.
\<close>

definition heap_from :: "PriorityQueue \<Rightarrow> nat \<Rightarrow> nat \<Rightarrow> bool" where
  "heap_from h n k =
     (\<forall>c. 0 < c \<and> c < n \<and> k \<le> (c - 1) div 2 \<longrightarrow> \<not> item_less (h ! c) (h ! ((c - 1) div 2)))"

definition heap_from_except :: "PriorityQueue \<Rightarrow> nat \<Rightarrow> nat \<Rightarrow> nat \<Rightarrow> bool" where
  "heap_from_except h n k i =
     (\<forall>c. 0 < c \<and> c < n \<and> k \<le> (c - 1) div 2 \<longrightarrow>
        ((c - 1) div 2 \<noteq> i \<longrightarrow> \<not> item_less (h ! c) (h ! ((c - 1) div 2))) \<and>
        ((c - 1) div 2 = i \<and> 0 < i \<and> k \<le> (i - 1) div 2 \<longrightarrow>
           \<not> item_less (h ! c) (h ! ((i - 1) div 2))))"

text \<open>
  What holds of every queue so built: the heap order, and each entry's priority the one of
  its job.
\<close>

definition queue_inv :: "Queue \<Rightarrow> bool" where
  "queue_inv q =
     (heap_ok (items q) (length (items q)) \<and>
      (\<forall>a\<in>set (items q). QI_Priority a = Job_Priority (QI_Job a)))"

section \<open>Allocator (pkg/scheduler/core/allocator.go)\<close>

text \<open>
  \<open>generateAllocationID\<close> formats the clock reading in decimal (\<open>"alloc-%d"\<close>). All the
  readings of \<open>time.Now()\<close> made during one call of an operation are the one instant
  \<open>now\<close> passed to it.
\<close>

function digits :: "nat \<Rightarrow> string" where
  "digits n =
     (if n < 10 then [''0123456789'' ! n] else digits (n div 10) @ [''0123456789'' ! (n mod 10)])"
  by pat_completeness auto
termination
  by (relation "measure id") auto

declare digits.simps [simp del]

definition format_int :: "int \<Rightarrow> string" where
  "format_int i = (if i < 0 then CHR ''-'' # digits (nat (- i)) else digits (nat i))"

definition generateAllocationID :: "time \<Rightarrow> string" where
  "generateAllocationID now = ''alloc-'' @ format_int now"

text \<open>
  Go functions returning \<open>(*AllocationResult, error)\<close> return a pair of options here,
  together with the store as the call leaves it.
\<close>

type_synonym alloc_outcome = "(AllocationResult option \<times> error option) \<times> Store"

definition mark_allocated :: "AllocationRequest \<Rightarrow> string \<Rightarrow> GPU \<Rightarrow> GPU" where
  "mark_allocated request allocationID gpu =
     gpu\<lparr>GPU_Allocated := True, GPU_AllocationID := allocationID,
         GPU_JobID := Req_JobID request, GPU_TenantID := Req_TenantID request\<rparr>"

text \<open>The two loops of createAllocation's tail: a failed write is logged and skipped.\<close>

fun mark_gpus :: "Store \<Rightarrow> AllocationRequest \<Rightarrow> string \<Rightarrow> GPU list \<Rightarrow> Store" where
  "mark_gpus st request allocationID [] = st"
| "mark_gpus st request allocationID (gpu # rest) =
     (case UpdateGPU st (mark_allocated request allocationID gpu) of
        Inl err \<Rightarrow> mark_gpus st request allocationID rest
      | Inr st' \<Rightarrow> mark_gpus st' request allocationID rest)"

definition createAllocation ::
  "Store \<Rightarrow> AllocationRequest \<Rightarrow> Node \<Rightarrow> GPU list \<Rightarrow> time \<Rightarrow> alloc_outcome" where
  "createAllocation st request node gpus' now =
     (let gpuIDs = map GPU_ID gpus';
          allocation = \<lparr>Alloc_ID = generateAllocationID now,
                        Alloc_JobID = Req_JobID request,
                        Alloc_TenantID = Req_TenantID request,
                        Alloc_State = AllocationActive,
                        Alloc_GPUIDs = gpuIDs,
                        Alloc_NodeID = Node_ID node,
                        Alloc_CPUCores = Req_CPUCores request,
                        Alloc_MemoryMB = Req_MemoryMB request,
                        Alloc_AllocatedAt = now,
                        Alloc_PlannedDuration = 3600000000000,
                        Alloc_ActualDuration = 0,
                        Alloc_PreemptedAt = None,
                        Alloc_PreemptedBy = [],
                        Alloc_PreemptionReason = [],
                        Alloc_CompletedAt = None\<rparr>
      in case CreateAllocation st allocation of
           Inl err \<Rightarrow> ((None, Some (Wrapped ''failed to create allocation'' err)), st)
         | Inr st1 \<Rightarrow>
             let st2 = mark_gpus st1 request (Alloc_ID allocation) gpus';
                 node' = node\<lparr>Node_AvailableGPUs := Node_AvailableGPUs node - of_nat (length gpus'),
                              Node_AvailableCPUCores := Node_AvailableCPUCores node - Req_CPUCores request,
                              Node_AvailableMemoryMB := Node_AvailableMemoryMB node - Req_MemoryMB request\<rparr>;
                 st3 = (case UpdateNode st2 node' of Inl err \<Rightarrow> st2 | Inr st' \<Rightarrow> st')
             in ((Some \<lparr>Res_Success = True, Res_AllocationID = Alloc_ID allocation,
                         Res_GPUIDs = gpuIDs, Res_NodeID = Node_ID node,
                         Res_Message = [], Res_Timestamp = now\<rparr>, None), st3))"

text \<open>
  bestFitSchedule's loop over the nodes, carrying \<open>(bestNode, bestGPUs, minWaste)\<close>. The
  length of a slice is a non-negative \<open>int\<close>. Slicing \<open>availGPUs[:request.GPUCount]\<close> with a
  negative bound panics.
\<close>

fun bestFit_loop ::
  "Store \<Rightarrow> AllocationRequest \<Rightarrow> time \<Rightarrow> Node list \<Rightarrow> Node option \<times> GPU list \<times> int64
     \<Rightarrow> error + Node option \<times> GPU list \<times> int64" where
  "bestFit_loop st request now [] best = Inr best"
| "bestFit_loop st request now (node # rest) (bestNode, bestGPUs, minWaste) =
     (case ListGPUsByNode st (Node_ID node) of
        Inl err \<Rightarrow> bestFit_loop st request now rest (bestNode, bestGPUs, minWaste)
      | Inr gpus' \<Rightarrow>
          let availGPUs = filter (\<lambda>gpu. IsAvailable gpu now) gpus'
          in if sint (Req_GPUCount request) \<le> int (length availGPUs)
             then let waste = of_nat (length availGPUs) - Req_GPUCount request
                  in if waste <s minWaste
                     then if Req_GPUCount request <s 0
                          then Inl (Panic ''slice bounds out of range'')
                          else bestFit_loop st request now rest
                                 (Some node, take (unat (Req_GPUCount request)) availGPUs, waste)
                     else bestFit_loop st request now rest (bestNode, bestGPUs, minWaste)
             else bestFit_loop st request now rest (bestNode, bestGPUs, minWaste))"

definition bestFitSchedule ::
  "Store \<Rightarrow> AllocationRequest \<Rightarrow> Node list \<Rightarrow> time \<Rightarrow> alloc_outcome" where
  "bestFitSchedule st request nodes' now =
     (case bestFit_loop st request now nodes' (None, [], 999999) of
        Inl err \<Rightarrow> ((None, Some err), st)
      | Inr (None, bestGPUs, minWaste) \<Rightarrow>
          ((Some \<lparr>Res_Success = False, Res_AllocationID = [], Res_GPUIDs = [], Res_NodeID = [],
                   Res_Message = ''no suitable node found'', Res_Timestamp = zeroTime\<rparr>,
            Some ErrInsufficientResources), st)
      | Inr (Some bestNode, bestGPUs, minWaste) \<Rightarrow>
          createAllocation st request bestNode bestGPUs now)"

text \<open>
  gangSchedule's inner loop: append the available GPUs to \<open>availGPUs\<close> and stop as soon as
  their number equals the requested count.
\<close>

fun gang_collect :: "AllocationRequest \<Rightarrow> time \<Rightarrow> GPU list \<Rightarrow> GPU list \<Rightarrow> GPU list" where
  "gang_collect request now [] availGPUs = availGPUs"
| "gang_collect request now (gpu # rest) availGPUs =
     (if IsAvailable gpu now
      then let availGPUs' = availGPUs @ [gpu]
           in if int (length availGPUs') = sint (Req_GPUCount request) then availGPUs'
              else gang_collect request now rest availGPUs'
      else gang_collect request now rest availGPUs)"

fun gangSchedule ::
  "Store \<Rightarrow> AllocationRequest \<Rightarrow> Node list \<Rightarrow> time \<Rightarrow> alloc_outcome" where
  "gangSchedule st request [] now =
     ((Some \<lparr>Res_Success = False, Res_AllocationID = [], Res_GPUIDs = [], Res_NodeID = [],
              Res_Message = ''gang scheduling failed - insufficient resources on single node'',
              Res_Timestamp = zeroTime\<rparr>,
       Some ErrGangSchedulingFailed), st)"
| "gangSchedule st request (node # rest) now =
     (if Req_GPUCount request \<le>s Node_AvailableGPUs node
      then case ListGPUsByNode st (Node_ID node) of
             Inl err \<Rightarrow> gangSchedule st request rest now
           | Inr gpus' \<Rightarrow>
               let availGPUs = gang_collect request now gpus' []
               in if int (length availGPUs) = sint (Req_GPUCount request)
                  then createAllocation st request node availGPUs now
                  else gangSchedule st request rest now
      else gangSchedule st request rest now)"

definition Allocate :: "Store \<Rightarrow> AllocationRequest \<Rightarrow> time \<Rightarrow> alloc_outcome" where
  "Allocate st request now =
     (case ListNodes st of
        Inl err \<Rightarrow> ((None, Some (Wrapped ''failed to list nodes'' err)), st)
      | Inr nodes' \<Rightarrow>
          let availableNodes =
                filter (\<lambda>node. HasCapacity node (Req_GPUCount request) (Req_CPUCores request)
                                  (Req_MemoryMB request)) nodes'
          in if length availableNodes = 0
             then ((Some \<lparr>Res_Success = False, Res_AllocationID = [], Res_GPUIDs = [],
                           Res_NodeID = [], Res_Message = ''no nodes with sufficient capacity'',
                           Res_Timestamp = zeroTime\<rparr>,
                    Some ErrInsufficientResources), st)
             else if Req_GangScheduling request
                  then gangSchedule st request availableNodes now
                  else bestFitSchedule st request availableNodes now)"

definition free_gpu :: "GPU \<Rightarrow> GPU" where
  "free_gpu gpu = gpu\<lparr>GPU_Allocated := False, GPU_AllocationID := [],
                      GPU_JobID := [], GPU_TenantID := []\<rparr>"

text \<open>The GPU-freeing loop shared by Free and Preempt: a failed read or write is skipped.\<close>

fun free_gpus :: "Store \<Rightarrow> string list \<Rightarrow> Store" where
  "free_gpus st [] = st"
| "free_gpus st (gpuID # rest) =
     (case GetGPU st gpuID of
        Inl err \<Rightarrow> free_gpus st rest
      | Inr gpu \<Rightarrow>
          (case UpdateGPU st (free_gpu gpu) of
             Inl err \<Rightarrow> free_gpus st rest
           | Inr st' \<Rightarrow> free_gpus st' rest))"

definition release_node :: "Node \<Rightarrow> Allocation \<Rightarrow> Node" where
  "release_node node allocation =
     node\<lparr>Node_AvailableGPUs := Node_AvailableGPUs node + of_nat (length (Alloc_GPUIDs allocation)),
          Node_AvailableCPUCores := Node_AvailableCPUCores node + Alloc_CPUCores allocation,
          Node_AvailableMemoryMB := Node_AvailableMemoryMB node + Alloc_MemoryMB allocation\<rparr>"

text \<open>Allocator.Free: the error returned (\<open>None\<close> for nil) and the store afterwards.\<close>

definition Free :: "Store \<Rightarrow> string \<Rightarrow> time \<Rightarrow> error option \<times> Store" where
  "Free st allocationID now =
     (case GetAllocation st allocationID of
        Inl err \<Rightarrow> (Some err, st)
      | Inr allocation0 \<Rightarrow>
          let allocation = CalculateDuration
                (allocation0\<lparr>Alloc_State := AllocationCompleted, Alloc_CompletedAt := Some now\<rparr>)
          in case UpdateAllocation st allocation of
               Inl err \<Rightarrow> (Some err, st)
             | Inr st1 \<Rightarrow>
                 let st2 = free_gpus st1 (Alloc_GPUIDs allocation)
                 in case GetNode st2 (Alloc_NodeID allocation) of
                      Inl err \<Rightarrow> (Some err, st2)
                    | Inr node \<Rightarrow>
                        (case UpdateNode st2 (release_node node allocation) of
                           Inl err \<Rightarrow> (Some err, st2)
                         | Inr st3 \<Rightarrow> (None, st3)))"

section \<open>Preemptor (pkg/scheduler/core, Preemptor)\<close>

definition is_candidate :: "Store \<Rightarrow> Job \<Rightarrow> Job \<Rightarrow> bool" where
  "is_candidate st requestingJob job =
     (Job_Priority job <s Job_Priority requestingJob \<and>
      (case GetTenant st (Job_TenantID job) of
         Inl err \<Rightarrow> False
       | Inr tenant \<Rightarrow> Tenant_AllowPreemption tenant))"

text \<open>The selection loop over the candidates, carrying \<open>(victim, lowestPriority)\<close>.\<close>

fun pick_lowest :: "Job list \<Rightarrow> Job option \<times> int64 \<Rightarrow> Job option \<times> int64" where
  "pick_lowest [] acc = acc"
| "pick_lowest (candidate # rest) (victim, lowestPriority) =
     (if Job_Priority candidate <s lowestPriority
      then pick_lowest rest (Some candidate, Job_Priority candidate)
      else pick_lowest rest (victim, lowestPriority))"

definition SelectVictims :: "Store \<Rightarrow> Job \<Rightarrow> error + Job list" where
  "SelectVictims st requestingJob =
     (case ListJobsByState st JobStateRunning of
        Inl err \<Rightarrow> Inl err
      | Inr runningJobs \<Rightarrow>
          let candidates = filter (is_candidate st requestingJob) runningJobs
          in if length candidates = 0 then Inr []
             else (case fst (pick_lowest candidates (None, 999999)) of
                     Some victim \<Rightarrow> Inr [victim]
                   | None \<Rightarrow> Inr []))"

text \<open>Preempt's loop over the victim's allocations.\<close>

fun preempt_allocations :: "Store \<Rightarrow> Allocation list \<Rightarrow> string \<Rightarrow> time \<Rightarrow> Store" where
  "preempt_allocations st [] preemptorID now = st"
| "preempt_allocations st (alloc0 # rest) preemptorID now =
     (let alloc = alloc0\<lparr>Alloc_State := AllocationPreempted, Alloc_PreemptedAt := Some now,
                         Alloc_PreemptedBy := preemptorID,
                         Alloc_PreemptionReason := ''higher priority job''\<rparr>;
          st1 = (case UpdateAllocation st alloc of Inl err \<Rightarrow> st | Inr st' \<Rightarrow> st');
          st2 = free_gpus st1 (Alloc_GPUIDs alloc)
      in case GetNode st2 (Alloc_NodeID alloc) of
           Inl err \<Rightarrow> preempt_allocations st2 rest preemptorID now
         | Inr node \<Rightarrow>
             (case UpdateNode st2 (release_node node alloc) of
                Inl err \<Rightarrow> preempt_allocations st2 rest preemptorID now
              | Inr st3 \<Rightarrow> preempt_allocations st3 rest preemptorID now))"

definition Preempt :: "Store \<Rightarrow> Job \<Rightarrow> string \<Rightarrow> time \<Rightarrow> error option \<times> Store" where
  "Preempt st victim0 preemptorID now =
     (let victim = victim0\<lparr>Job_State := JobStatePreempted,
                           Job_PreemptedCount := Job_PreemptedCount victim0 + 1\<rparr>
      in case UpdateJob st victim of
           Inl err \<Rightarrow> (Some (Wrapped ''failed to update victim job'' err), st)
         | Inr st1 \<Rightarrow>
             (case GetJobAllocations st1 (Job_ID victim) of
                Inl err \<Rightarrow> (Some err, st1)
              | Inr allocations' \<Rightarrow>
                  (None, preempt_allocations st1 allocations' preemptorID now)))"

section \<open>Scheduler (pkg/scheduler/core/scheduler.go)\<close>

text \<open>
  utils.SchedulerConfig without the float-valued \<open>ThermalThreshold\<close>, and the Scheduler
  with its queue, its repository and its counters.
\<close>

record SchedulerConfig =
  SchedulingInterval :: int64
  MaxQueueSize :: int64
  EnablePreemption :: bool
  EnableGangScheduling :: bool
  EnableThermalAware :: bool
  DefaultPriority :: int64

record Scheduler =
  queue :: Queue
  storage :: Store
  config :: SchedulerConfig
  scheduledJobs :: int64
  failedJobs :: int64
  preemptedJobs :: int64

definition NewScheduler :: "SchedulerConfig \<Rightarrow> Store \<Rightarrow> Scheduler" where
  "NewScheduler cfg st =
     \<lparr>queue = NewQueue (MaxQueueSize cfg), storage = st, config = cfg,
      scheduledJobs = 0, failedJobs = 0, preemptedJobs = 0\<rparr>"

definition validateJob :: "Job \<Rightarrow> error option" where
  "validateJob job =
     (if Job_GPUCount job \<le>s 0 then Some (ErrMessage ''GPU count must be positive'')
      else if 8 <s Job_GPUCount job then Some (ErrMessage ''GPU count cannot exceed 8'')
      else if Job_TenantID job = [] then Some (ErrMessage ''tenant ID is required'')
      else None)"

text \<open>
  SubmitJob: the error returned (\<open>None\<close> for nil) and the scheduler afterwards. The job
  object the caller passed is the one stored and enqueued, with its state and
  \<open>SubmittedAt\<close> set.
\<close>

definition SubmitJob :: "Scheduler \<Rightarrow> Job \<Rightarrow> time \<Rightarrow> error option \<times> Scheduler" where
  "SubmitJob s job0 now =
     (case validateJob job0 of
        Some err \<Rightarrow> (Some (Wrapped ''job validation failed'' err), s)
      | None \<Rightarrow>
          (case GetTenant (storage s) (Job_TenantID job0) of
             Inl err \<Rightarrow> (Some (Wrapped ''failed to get tenant'' err), s)
           | Inr tenant \<Rightarrow>
               if \<not> HasAvailableQuota tenant (Job_GPUCount job0) (Job_GPUMemoryMB job0)
                      (Job_CPUCores job0) (Job_MemoryMB job0)
               then (Some (QuotaExceededError (Tenant_ID tenant) ''GPUs'' (Job_GPUCount job0)
                             (Tenant_MaxGPUs tenant) (Tenant_CurrentGPUs tenant)), s)
               else let job = job0\<lparr>Job_State := JobStatePending, Job_SubmittedAt := now\<rparr>
                    in case CreateJob (storage s) job of
                         Inl err \<Rightarrow> (Some (Wrapped ''failed to create job'' err), s)
                       | Inr st' \<Rightarrow>
                           (case Enqueue (queue s) job now of
                              Inl err \<Rightarrow>
                                (Some (Wrapped ''failed to enqueue job'' err), s\<lparr>storage := st'\<rparr>)
                            | Inr q' \<Rightarrow> (None, s\<lparr>storage := st', queue := q'\<rparr>))))"

definition tryAllocateJob :: "Store \<Rightarrow> Job \<Rightarrow> time \<Rightarrow> (bool \<times> error option) \<times> Store" where
  "tryAllocateJob st job now =
     (let request = \<lparr>Req_JobID = Job_ID job, Req_TenantID = Job_TenantID job,
                     Req_GPUCount = Job_GPUCount job, Req_GPUMemoryMB = Job_GPUMemoryMB job,
                     Req_CPUCores = Job_CPUCores job, Req_MemoryMB = Job_MemoryMB job,
                     Req_GangScheduling = Job_GangScheduling job\<rparr>
      in case Allocate st request now of
           ((result, Some err), st') \<Rightarrow> ((False, Some err), st')
         | ((Some result, None), st') \<Rightarrow> ((Res_Success result, None), st')
         | ((None, None), st') \<Rightarrow> ((False, Some (Panic ''nil pointer dereference'')), st'))"

definition startJob :: "Store \<Rightarrow> Job \<Rightarrow> time \<Rightarrow> error option \<times> Store" where
  "startJob st job0 now =
     (let job = job0\<lparr>Job_State := JobStateRunning, Job_ScheduledAt := Some now,
                     Job_StartedAt := Some now\<rparr>
      in case UpdateJob st job of
           Inl err \<Rightarrow> (Some err, st)
         | Inr st1 \<Rightarrow>
             (case GetTenant st1 (Job_TenantID job) of
                Inl err \<Rightarrow> (Some err, st1)
              | Inr tenant \<Rightarrow>
                  (case UpdateTenant st1 (UpdateUsage tenant (Job_GPUCount job) (Job_GPUMemoryMB job)
                                            (Job_CPUCores job) (Job_MemoryMB job) 1) of
                     Inl err \<Rightarrow> (Some err, st1)
                   | Inr st2 \<Rightarrow> (None, st2))))"

text \<open>tryPreemption's loop over the victims.\<close>

fun preempt_victims :: "Scheduler \<Rightarrow> Job list \<Rightarrow> string \<Rightarrow> time \<Rightarrow> bool \<times> Scheduler" where
  "preempt_victims s [] preemptorID now = (True, s)"
| "preempt_victims s (victim # rest) preemptorID now =
     (case Preempt (storage s) victim preemptorID now of
        (Some err, st') \<Rightarrow> (False, s\<lparr>storage := st'\<rparr>)
      | (None, st') \<Rightarrow>
          preempt_victims (s\<lparr>storage := st', preemptedJobs := preemptedJobs s + 1\<rparr>)
            rest preemptorID now)"

definition tryPreemption :: "Scheduler \<Rightarrow> Job \<Rightarrow> time \<Rightarrow> bool \<times> Scheduler" where
  "tryPreemption s job now =
     (if \<not> EnablePreemption (config s) then (False, s)
      else case SelectVictims (storage s) job of
             Inl err \<Rightarrow> (False, s)
           | Inr victims \<Rightarrow>
               if length victims = 0 then (False, s)
               else preempt_victims s victims (Job_ID job) now)"

text \<open>
  The loop of schedulingCycle. Iteration \<open>k\<close> reads the clock as \<open>clk k\<close>. The loop is
  written as the source has it, with no bound on its iterations: \<open>None\<close> is a loop that
  does not return.
\<close>

partial_function (option) schedulingLoop :: "(nat \<Rightarrow> time) \<Rightarrow> nat \<Rightarrow> Scheduler \<Rightarrow> Scheduler option" where
  "schedulingLoop clk k s =
     (if IsEmpty (queue s) then Some s
      else case Peek (queue s) of
             None \<Rightarrow> Some s
           | Some job \<Rightarrow>
               (case tryAllocateJob (storage s) job (clk k) of
                  ((allocated, Some err), st') \<Rightarrow>
                    if EnablePreemption (config s) \<and> IsResourceError err
                    then (case tryPreemption (s\<lparr>storage := st'\<rparr>) job (clk k) of
                            (preempted, s') \<Rightarrow>
                              if preempted then schedulingLoop clk (Suc k) s' else Some s')
                    else Some (s\<lparr>storage := st'\<rparr>)
                | ((allocated, None), st') \<Rightarrow>
                    if allocated
                    then (case startJob st' job (clk k) of
                            (Some err, st'') \<Rightarrow>
                              schedulingLoop clk (Suc k)
                                (s\<lparr>queue := snd (Dequeue (queue s)), storage := st'',
                                   failedJobs := failedJobs s + 1\<rparr>)
                          | (None, st'') \<Rightarrow>
                              schedulingLoop clk (Suc k)
                                (s\<lparr>queue := snd (Dequeue (queue s)), storage := st'',
                                   scheduledJobs := scheduledJobs s + 1\<rparr>))
                    else Some (s\<lparr>storage := st'\<rparr>)))"

text \<open>schedulingCycle: aging by 10 past 5 minutes, read at \<open>clk 0\<close>, then the loop.\<close>

definition schedulingCycle :: "Scheduler \<Rightarrow> (nat \<Rightarrow> time) \<Rightarrow> Scheduler option" where
  "schedulingCycle s clk =
     schedulingLoop clk 1 (s\<lparr>queue := ApplyAging (queue s) 10 300000000000 (clk 0)\<rparr>)"

text \<open>
  loadPendingJobs, run by Start before the first cycle. The \<open>k\<close>-th Enqueue reads the
  clock as \<open>clk k\<close>; a job whose Enqueue fails is logged and skipped.
\<close>

fun enqueue_all :: "Queue \<Rightarrow> Job list \<Rightarrow> (nat \<Rightarrow> time) \<Rightarrow> nat \<Rightarrow> Queue" where
  "enqueue_all q [] clk k = q"
| "enqueue_all q (job # rest) clk k =
     (case Enqueue q job (clk k) of
        Inl err \<Rightarrow> enqueue_all q rest clk (Suc k)
      | Inr q' \<Rightarrow> enqueue_all q' rest clk (Suc k))"

definition loadPendingJobs :: "Scheduler \<Rightarrow> (nat \<Rightarrow> time) \<Rightarrow> error option \<times> Scheduler" where
  "loadPendingJobs s clk =
     (case ListJobsByState (storage s) JobStatePending of
        Inl err \<Rightarrow> (Some err, s)
      | Inr jobs' \<Rightarrow> (None, s\<lparr>queue := enqueue_all (queue s) jobs' clk 0\<rparr>))"

section \<open>Example states\<close>

text \<open>A repository in which no call fails in the driver.\<close>

definition no_faults :: "RepoOp \<Rightarrow> string \<Rightarrow> bool" where
  "no_faults op k = False"

definition ex_tenant :: Tenant where
  "ex_tenant = \<lparr>Tenant_ID = ''t1'', Tenant_MaxGPUs = 4, Tenant_MaxGPUMemoryMB = 64000,
     Tenant_MaxCPUCores = 32, Tenant_MaxMemoryMB = 100, Tenant_MaxConcurrentJobs = 5,
     Tenant_CurrentGPUs = 1, Tenant_CurrentGPUMemory = 16000, Tenant_CurrentCPUCores = 4,
     Tenant_CurrentMemory = 1, Tenant_CurrentJobs = 1, Tenant_AllowPreemption = True\<rparr>"

definition ex_job :: Job where
  "ex_job = \<lparr>Job_ID = ''j1'', Job_TenantID = ''t1'', Job_State = [], Job_Priority = 100,
     Job_GPUCount = 1, Job_GPUMemoryMB = 16000, Job_CPUCores = 4, Job_MemoryMB = 50,
     Job_GangScheduling = False, Job_SubmittedAt = 0, Job_ScheduledAt = None,
     Job_StartedAt = None, Job_CompletedAt = None, Job_PreemptedCount = 0\<rparr>"

text \<open>A configuration whose queue has capacity 0, so that every Enqueue finds it full.\<close>

definition ex_config :: SchedulerConfig where
  "ex_config = \<lparr>SchedulingInterval = 1000, MaxQueueSize = 0, EnablePreemption = True,
     EnableGangScheduling = True, EnableThermalAware = False, DefaultPriority = 100\<rparr>"

definition ex_store :: Store where
  "ex_store = \<lparr>jobs = [], tenants = [ex_tenant], gpus = [], nodes = [], allocations = [],
     broken = no_faults\<rparr>"

text \<open>The mathematical sum of two 64-bit quantities is itself a 64-bit quantity.\<close>

definition fits :: "int64 \<Rightarrow> int64 \<Rightarrow> bool" where
  "fits a b = (- 9223372036854775808 \<le> sint a + sint b \<and> sint a + sint b \<le> 9223372036854775807)"

text \<open>A queue of capacity 10, and a job asking for the largest int64 amount of host memory.\<close>

definition c1_config :: SchedulerConfig where
  "c1_config = ex_config\<lparr>MaxQueueSize := 10\<rparr>"

definition c1_job :: Job where
  "c1_job = ex_job\<lparr>Job_MemoryMB := 9223372036854775807\<rparr>"

text \<open>
  A schedulable node with one GPU: unallocated and healthy, but thermally throttled; and the
  same cluster with the throttle off.
\<close>

definition c9_gpu :: GPU where
  "c9_gpu = \<lparr>GPU_ID = ''g1'', GPU_NodeID = ''n1'', GPU_Allocated = False, GPU_AllocationID = [],
     GPU_JobID = [], GPU_TenantID = [], GPU_CoolingPeriod = 0, GPU_ThermalThrottle = True,
     GPU_Health = HealthHealthy\<rparr>"

definition ex_node :: Node where
  "ex_node = \<lparr>Node_ID = ''n1'', Node_AvailableGPUs = 1, Node_AvailableCPUCores = 32,
     Node_AvailableMemoryMB = 1000, Node_Online = True, Node_Schedulable = True,
     Node_DrainingMode = False\<rparr>"

definition c9_store :: Store where
  "c9_store = ex_store\<lparr>gpus := [c9_gpu], nodes := [ex_node]\<rparr>"


definition c9_request :: AllocationRequest where
  "c9_request = \<lparr>Req_JobID = ''j1'', Req_TenantID = ''t1'', Req_GPUCount = 1, Req_GPUMemoryMB = 16000,
     Req_CPUCores = 4, Req_MemoryMB = 50, Req_GangScheduling = False\<rparr>"


text \<open>
  A running one-GPU job of tenant t1, its Active allocation on node n1, and the tenant's
  usage, which is exactly that job's declared resources.
\<close>

definition c3_tenant :: Tenant where
  "c3_tenant = ex_tenant\<lparr>Tenant_CurrentMemory := 50\<rparr>"

definition c3_victim :: Job where
  "c3_victim = ex_job\<lparr>Job_State := JobStateRunning, Job_SubmittedAt := 3,
     Job_ScheduledAt := Some 5, Job_StartedAt := Some 5\<rparr>"

definition c3_alloc :: Allocation where
  "c3_alloc = \<lparr>Alloc_ID = ''alloc-5'', Alloc_JobID = ''j1'', Alloc_TenantID = ''t1'',
     Alloc_State = AllocationActive, Alloc_GPUIDs = [''g1''], Alloc_NodeID = ''n1'',
     Alloc_CPUCores = 4, Alloc_MemoryMB = 50, Alloc_AllocatedAt = 5,
     Alloc_PlannedDuration = 3600000000000, Alloc_ActualDuration = 0, Alloc_PreemptedAt = None,
     Alloc_PreemptedBy = [], Alloc_PreemptionReason = [], Alloc_CompletedAt = None\<rparr>"

definition c3_gpu :: GPU where
  "c3_gpu = \<lparr>GPU_ID = ''g1'', GPU_NodeID = ''n1'', GPU_Allocated = True,
     GPU_AllocationID = ''alloc-5'', GPU_JobID = ''j1'', GPU_TenantID = ''t1'',
     GPU_CoolingPeriod = 0, GPU_ThermalThrottle = False, GPU_Health = HealthHealthy\<rparr>"

definition c3_node :: Node where
  "c3_node = ex_node\<lparr>Node_AvailableGPUs := 0, Node_AvailableCPUCores := 28,
     Node_AvailableMemoryMB := 950\<rparr>"

definition c3_store :: Store where
  "c3_store = \<lparr>jobs = [c3_victim], tenants = [c3_tenant], gpus = [c3_gpu], nodes = [c3_node],
     allocations = [c3_alloc], broken = no_faults\<rparr>"

text \<open>
  Two running jobs of equal priority 10, listed by the repository with the one started
  later first.
\<close>

definition c6_late :: Job where
  "c6_late = ex_job\<lparr>Job_ID := ''late'', Job_State := JobStateRunning, Job_Priority := 10,
     Job_ScheduledAt := Some 20, Job_StartedAt := Some 20\<rparr>"

definition c6_early :: Job where
  "c6_early = ex_job\<lparr>Job_ID := ''early'', Job_State := JobStateRunning, Job_Priority := 10,
     Job_SubmittedAt := 1, Job_ScheduledAt := Some 10, Job_StartedAt := Some 10\<rparr>"

definition c6_store :: Store where
  "c6_store = ex_store\<lparr>jobs := [c6_late, c6_early]\<rparr>"

text \<open>The repository of the running job, with the write of GPU g1 failing in the driver.\<close>

definition c5_store :: Store where
  "c5_store = c3_store\<lparr>broken := (\<lambda>op k. op = OpUpdateGPU \<and> k = ''g1'')\<rparr>"


text \<open>
  A scheduler over a cluster with no node, holding two pending jobs, j1 ahead of j2.
\<close>

definition c7_second :: Job where
  "c7_second = ex_job\<lparr>Job_ID := ''j2'', Job_Priority := 50\<rparr>"

definition c7_queue :: Queue where
  "c7_queue = \<lparr>items = [\<lparr>QI_Job = ex_job, QI_Priority = 100, QI_EnqueuedAt = 1, QI_AgingBoost = 0\<rparr>,
                          \<lparr>QI_Job = c7_second, QI_Priority = 50, QI_EnqueuedAt = 2, QI_AgingBoost = 0\<rparr>],
                 jobMap = {''j1'', ''j2''}, maxSize = 10\<rparr>"

definition c7_sched :: Scheduler where
  "c7_sched = \<lparr>queue = c7_queue, storage = ex_store, config = ex_config,
                scheduledJobs = 0, failedJobs = 0, preemptedJobs = 0\<rparr>"

text \<open>
  A scheduler whose head job asks for gang scheduling, over the cluster whose only GPU is
  throttled and in which a job of lower priority, open to preemption, is running.
\<close>

definition c7_gang_job :: Job where
  "c7_gang_job = ex_job\<lparr>Job_ID := ''j3'', Job_GangScheduling := True\<rparr>"

definition c7_gang_sched :: Scheduler where
  "c7_gang_sched =
     \<lparr>queue = \<lparr>items = [\<lparr>QI_Job = c7_gang_job, QI_Priority = 100, QI_EnqueuedAt = 1,
                                QI_AgingBoost = 0\<rparr>,
                               \<lparr>QI_Job = c7_second, QI_Priority = 50, QI_EnqueuedAt = 2,
                                QI_AgingBoost = 0\<rparr>],
                      jobMap = {''j3'', ''j2''}, maxSize = 10\<rparr>,
      storage = c9_store\<lparr>jobs := [c6_late]\<rparr>, config = ex_config,
      scheduledJobs = 0, failedJobs = 0, preemptedJobs = 0\<rparr>"

text \<open>
  A node with two available GPUs, a repository whose write of GPU g2 fails, and a gang
  request for both GPUs.
\<close>

definition c4_gpu1 :: GPU where
  "c4_gpu1 = c9_gpu\<lparr>GPU_ThermalThrottle := False\<rparr>"

definition c4_gpu2 :: GPU where
  "c4_gpu2 = c9_gpu\<lparr>GPU_ID := ''g2'', GPU_ThermalThrottle := False\<rparr>"

definition c4_node :: Node where
  "c4_node = ex_node\<lparr>Node_AvailableGPUs := 2\<rparr>"

definition c4_faults :: "RepoOp \<Rightarrow> string \<Rightarrow> bool" where
  "c4_faults op k = (op = OpUpdateGPU \<and> k = ''g2'')"

definition c4_store :: Store where
  "c4_store = \<lparr>jobs = [], tenants = [ex_tenant], gpus = [c4_gpu1, c4_gpu2], nodes = [c4_node],
     allocations = [], broken = c4_faults\<rparr>"

definition c4_request :: AllocationRequest where
  "c4_request = c9_request\<lparr>Req_GPUCount := 2, Req_GangScheduling := True\<rparr>"

text \<open>
  Three jobs enqueued in the order low (priority 100, at instant 1), high (priority 1000,
  at 2), low2 (priority 100, at 3), and the queue they leave.
\<close>

definition c2_low :: Job where
  "c2_low = ex_job\<lparr>Job_ID := ''low''\<rparr>"

definition c2_high :: Job where
  "c2_high = ex_job\<lparr>Job_ID := ''high'', Job_Priority := 1000\<rparr>"

definition c2_low2 :: Job where
  "c2_low2 = ex_job\<lparr>Job_ID := ''low2''\<rparr>"

definition c2_queue :: Queue where
  "c2_queue =
     \<lparr>items = [\<lparr>QI_Job = c2_high, QI_Priority = 1000, QI_EnqueuedAt = 2, QI_AgingBoost = 0\<rparr>,
               \<lparr>QI_Job = c2_low, QI_Priority = 100, QI_EnqueuedAt = 1, QI_AgingBoost = 0\<rparr>,
               \<lparr>QI_Job = c2_low2, QI_Priority = 100, QI_EnqueuedAt = 3, QI_AgingBoost = 0\<rparr>],
      jobMap = {''low'', ''high'', ''low2''}, maxSize = 10\<rparr>"

text \<open>
  That queue aged by 1000 at instant 300000000002, when only the job enqueued at 1 has
  waited longer than five minutes (the instants are nanoseconds).
\<close>

definition c2_boosted :: Queue where
  "c2_boosted = ApplyAging c2_queue 1000 300000000000 300000000002"

text \<open>
  A job of priority 9223372036854775800 enqueued at instant 1 and a job of priority 100
  enqueued at instant 2, in a queue of capacity 10; and that queue aged as schedulingCycle
  ages it, by 10 past five minutes, at instant 400000000000.
\<close>

definition c2_huge :: Job where
  "c2_huge = ex_job\<lparr>Job_ID := ''huge'', Job_Priority := 9223372036854775800\<rparr>"

definition c2_first :: Queue where
  "c2_first =
     \<lparr>items = [\<lparr>QI_Job = c2_huge, QI_Priority = 9223372036854775800, QI_EnqueuedAt = 1,
                QI_AgingBoost = 0\<rparr>],
      jobMap = {''huge''}, maxSize = 10\<rparr>"

definition c2_both :: Queue where
  "c2_both =
     \<lparr>items = [\<lparr>QI_Job = c2_huge, QI_Priority = 9223372036854775800, QI_EnqueuedAt = 1,
                QI_AgingBoost = 0\<rparr>,
               \<lparr>QI_Job = c2_low, QI_Priority = 100, QI_EnqueuedAt = 2, QI_AgingBoost = 0\<rparr>],
      jobMap = {''huge'', ''low''}, maxSize = 10\<rparr>"

definition c2_aged :: Queue where
  "c2_aged = ApplyAging c2_both 10 300000000000 400000000000"

text \<open>
  Two pending jobs that the repository lists with the one submitted later first; a queue of
  capacity 1; a clock that reads 100 at the first Enqueue and 101 at the second; and the
  entry that Enqueue makes for a job at an instant.
\<close>

definition c8_late :: Job where
  "c8_late = ex_job\<lparr>Job_ID := ''late'', Job_State := JobStatePending, Job_SubmittedAt := 20\<rparr>"

definition c8_early :: Job where
  "c8_early = ex_job\<lparr>Job_ID := ''early'', Job_State := JobStatePending, Job_SubmittedAt := 10\<rparr>"

definition c8_store :: Store where
  "c8_store = ex_store\<lparr>jobs := [c8_late, c8_early]\<rparr>"

definition c8_small :: SchedulerConfig where
  "c8_small = ex_config\<lparr>MaxQueueSize := 1\<rparr>"

definition c8_clock :: "nat \<Rightarrow> time" where
  "c8_clock k = 100 + int k"

definition new_item :: "Job \<Rightarrow> time \<Rightarrow> QueueItem" where
  "new_item job now = \<lparr>QI_Job = job, QI_Priority = Job_Priority job, QI_EnqueuedAt = now,
                        QI_AgingBoost = 0\<rparr>"

section \<open>Verified properties\<close>

subsection \<open>Rows and lookups\<close>

lemma first_row_append_new:
  "k \<notin> set (map key rows) \<Longrightarrow> key row = k \<Longrightarrow> first_row key k (rows @ [row]) = Some row"
  by (induction rows) (auto simp: first_row_def)

lemma NewQueue_items: "items (NewQueue m) = []"
  by (simp add: NewQueue_def heap_Init_def)

subsection \<open>Submission\<close>

text \<open>
  C10. Submit is not atomic on error: when a job passes validation and quota admission and
  CreateJob has persisted it, and Enqueue then fails (the queue is at capacity, or the job
  id is already queued), SubmitJob returns the wrapped Enqueue error while the repository
  keeps the job, in state Pending and with \<open>SubmittedAt\<close> set to the submission instant.
\<close>

theorem SubmitJob_not_atomic:
  assumes "validateJob job = None"
    and "GetTenant (storage s) (Job_TenantID job) = Inr tenant"
    and "HasAvailableQuota tenant (Job_GPUCount job) (Job_GPUMemoryMB job) (Job_CPUCores job) (Job_MemoryMB job)"
    and "CreateJob (storage s) (job\<lparr>Job_State := JobStatePending, Job_SubmittedAt := now\<rparr>) = Inr st'"
    and "Enqueue (queue s) (job\<lparr>Job_State := JobStatePending, Job_SubmittedAt := now\<rparr>) now = Inl err"
    and "\<not> broken (storage s) OpGetJob (Job_ID job)"
  shows "SubmitJob s job now = (Some (Wrapped ''failed to enqueue job'' err), s\<lparr>storage := st'\<rparr>) \<and>
         GetJob st' (Job_ID job) = Inr (job\<lparr>Job_State := JobStatePending, Job_SubmittedAt := now\<rparr>) \<and>
         (err = QueueFullError (maxSize (queue s)) \<or> err = JobAlreadyInQueueError (Job_ID job))"
proof -
  let ?job = "job\<lparr>Job_State := JobStatePending, Job_SubmittedAt := now\<rparr>"
  have submit: "SubmitJob s job now = (Some (Wrapped ''failed to enqueue job'' err), s\<lparr>storage := st'\<rparr>)"
    using assms(1-5) by (simp add: SubmitJob_def)
  from assms(4) have fresh: "Job_ID job \<notin> set (map Job_ID (jobs (storage s)))"
    and st': "st' = (storage s)\<lparr>jobs := jobs (storage s) @ [?job]\<rparr>"
    by (auto simp: CreateJob_def split: if_splits)
  have "first_row Job_ID (Job_ID job) (jobs (storage s) @ [?job]) = Some ?job"
    using fresh by (intro first_row_append_new) simp_all
  then have get: "GetJob st' (Job_ID job) = Inr ?job"
    using assms(6) by (simp add: GetJob_def st')
  have kind: "err = QueueFullError (maxSize (queue s)) \<or> err = JobAlreadyInQueueError (Job_ID job)"
    using assms(5) by (auto simp: Enqueue_def Let_def split: if_splits)
  from submit get kind show ?thesis by simp
qed

theorem SubmitJob_not_atomic_witness:
  "validateJob ex_job = None \<and>
   SubmitJob (NewScheduler ex_config ex_store) ex_job 7 =
     (Some (Wrapped ''failed to enqueue job'' (QueueFullError 0)),
      (NewScheduler ex_config ex_store)\<lparr>storage := ex_store\<lparr>jobs := [ex_job\<lparr>Job_State := JobStatePending, Job_SubmittedAt := 7\<rparr>]\<rparr>\<rparr>) \<and>
   GetJob (ex_store\<lparr>jobs := [ex_job\<lparr>Job_State := JobStatePending, Job_SubmittedAt := 7\<rparr>]\<rparr>) ''j1'' =
     Inr (ex_job\<lparr>Job_State := JobStatePending, Job_SubmittedAt := 7\<rparr>)"
proof -
  have 1: "validateJob ex_job = None" by (simp add: validateJob_def ex_job_def word_sle_eq word_sless_alt)
  have 2: "GetTenant (storage (NewScheduler ex_config ex_store)) (Job_TenantID ex_job) = Inr ex_tenant"
    by (simp add: GetTenant_def NewScheduler_def ex_store_def ex_job_def ex_tenant_def no_faults_def first_row_def)
  have 3: "HasAvailableQuota ex_tenant (Job_GPUCount ex_job) (Job_GPUMemoryMB ex_job) (Job_CPUCores ex_job) (Job_MemoryMB ex_job)"
    by (simp add: HasAvailableQuota_def ex_tenant_def ex_job_def word_sle_eq word_sless_alt)
  have 4: "CreateJob (storage (NewScheduler ex_config ex_store)) (ex_job\<lparr>Job_State := JobStatePending, Job_SubmittedAt := 7\<rparr>)
           = Inr (ex_store\<lparr>jobs := [ex_job\<lparr>Job_State := JobStatePending, Job_SubmittedAt := 7\<rparr>]\<rparr>)"
    by (simp add: CreateJob_def NewScheduler_def ex_store_def no_faults_def)
  have 5: "Enqueue (queue (NewScheduler ex_config ex_store)) (ex_job\<lparr>Job_State := JobStatePending, Job_SubmittedAt := 7\<rparr>) 7
           = Inl (QueueFullError 0)"
    by (simp add: Enqueue_def NewScheduler_def NewQueue_def heap_Init_def ex_config_def)
  have 6: "\<not> broken (storage (NewScheduler ex_config ex_store)) OpGetJob (Job_ID ex_job)"
    by (simp add: NewScheduler_def ex_store_def no_faults_def)
  from SubmitJob_not_atomic [OF 1 2 3 4 5 6] 1 show ?thesis
    by (simp add: ex_job_def)
qed

text \<open>
  Quota admission. Where no sum of a current usage and a request leaves the int64 range,
  SubmitJob (its other steps succeeding) succeeds exactly when every dimension fits under
  the ceiling, and otherwise returns the quota-exceeded error.
\<close>

lemma sint_add_no_overflow:
  fixes a b :: int64
  assumes "- 9223372036854775808 \<le> sint a + sint b" "sint a + sint b \<le> 9223372036854775807"
  shows "sint (a + b) = sint a + sint b"
  using assms by (simp add: sint_word_ariths signed_take_bit_int_eq_self_iff)

lemma HasAvailableQuota_no_overflow:
  assumes "fits (Tenant_CurrentGPUs t) gpus'" "fits (Tenant_CurrentGPUMemory t) gpuMemory"
    "fits (Tenant_CurrentCPUCores t) cpus" "fits (Tenant_CurrentMemory t) memory"
    "fits (Tenant_CurrentJobs t) 1"
  shows "HasAvailableQuota t gpus' gpuMemory cpus memory \<longleftrightarrow>
     sint (Tenant_CurrentGPUs t) + sint gpus' \<le> sint (Tenant_MaxGPUs t) \<and>
     sint (Tenant_CurrentGPUMemory t) + sint gpuMemory \<le> sint (Tenant_MaxGPUMemoryMB t) \<and>
     sint (Tenant_CurrentCPUCores t) + sint cpus \<le> sint (Tenant_MaxCPUCores t) \<and>
     sint (Tenant_CurrentMemory t) + sint memory \<le> sint (Tenant_MaxMemoryMB t) \<and>
     sint (Tenant_CurrentJobs t) + 1 \<le> sint (Tenant_MaxConcurrentJobs t)"
proof -
  have j: "sint (Tenant_CurrentJobs t + 1) = sint (Tenant_CurrentJobs t) + 1"
    using assms(5) sint_add_no_overflow [of "Tenant_CurrentJobs t" 1] by (simp add: fits_def)
  show ?thesis
    using assms(1-4) j
    by (simp add: HasAvailableQuota_def word_sle_eq fits_def sint_add_no_overflow)
qed

lemma SubmitJob_quota_no_overflow:
  assumes "validateJob job = None"
    and "GetTenant (storage s) (Job_TenantID job) = Inr t"
    and "CreateJob (storage s) (job\<lparr>Job_State := JobStatePending, Job_SubmittedAt := now\<rparr>) = Inr st'"
    and "Enqueue (queue s) (job\<lparr>Job_State := JobStatePending, Job_SubmittedAt := now\<rparr>) now = Inr q'"
    and "fits (Tenant_CurrentGPUs t) (Job_GPUCount job)" "fits (Tenant_CurrentGPUMemory t) (Job_GPUMemoryMB job)"
    "fits (Tenant_CurrentCPUCores t) (Job_CPUCores job)" "fits (Tenant_CurrentMemory t) (Job_MemoryMB job)"
    "fits (Tenant_CurrentJobs t) 1"
  shows "fst (SubmitJob s job now) = None \<longleftrightarrow>
     sint (Tenant_CurrentGPUs t) + sint (Job_GPUCount job) \<le> sint (Tenant_MaxGPUs t) \<and>
     sint (Tenant_CurrentGPUMemory t) + sint (Job_GPUMemoryMB job) \<le> sint (Tenant_MaxGPUMemoryMB t) \<and>
     sint (Tenant_CurrentCPUCores t) + sint (Job_CPUCores job) \<le> sint (Tenant_MaxCPUCores t) \<and>
     sint (Tenant_CurrentMemory t) + sint (Job_MemoryMB job) \<le> sint (Tenant_MaxMemoryMB t) \<and>
     sint (Tenant_CurrentJobs t) + 1 \<le> sint (Tenant_MaxConcurrentJobs t)"
    and "fst (SubmitJob s job now) \<noteq> None \<longrightarrow>
     SubmitJob s job now = (Some (QuotaExceededError (Tenant_ID t) ''GPUs'' (Job_GPUCount job)
        (Tenant_MaxGPUs t) (Tenant_CurrentGPUs t)), s)"
proof -
  have q: "HasAvailableQuota t (Job_GPUCount job) (Job_GPUMemoryMB job) (Job_CPUCores job) (Job_MemoryMB job) \<longleftrightarrow>
     sint (Tenant_CurrentGPUs t) + sint (Job_GPUCount job) \<le> sint (Tenant_MaxGPUs t) \<and>
     sint (Tenant_CurrentGPUMemory t) + sint (Job_GPUMemoryMB job) \<le> sint (Tenant_MaxGPUMemoryMB t) \<and>
     sint (Tenant_CurrentCPUCores t) + sint (Job_CPUCores job) \<le> sint (Tenant_MaxCPUCores t) \<and>
     sint (Tenant_CurrentMemory t) + sint (Job_MemoryMB job) \<le> sint (Tenant_MaxMemoryMB t) \<and>
     sint (Tenant_CurrentJobs t) + 1 \<le> sint (Tenant_MaxConcurrentJobs t)"
    using assms(5-9) by (rule HasAvailableQuota_no_overflow)
  have ok: "HasAvailableQuota t (Job_GPUCount job) (Job_GPUMemoryMB job) (Job_CPUCores job) (Job_MemoryMB job)
      \<Longrightarrow> fst (SubmitJob s job now) = None"
    using assms(1-4) by (simp add: SubmitJob_def)
  have ko: "\<not> HasAvailableQuota t (Job_GPUCount job) (Job_GPUMemoryMB job) (Job_CPUCores job) (Job_MemoryMB job)
      \<Longrightarrow> SubmitJob s job now = (Some (QuotaExceededError (Tenant_ID t) ''GPUs'' (Job_GPUCount job)
        (Tenant_MaxGPUs t) (Tenant_CurrentGPUs t)), s)"
    using assms(1-2) by (simp add: SubmitJob_def)
  show "fst (SubmitJob s job now) = None \<longleftrightarrow>
     sint (Tenant_CurrentGPUs t) + sint (Job_GPUCount job) \<le> sint (Tenant_MaxGPUs t) \<and>
     sint (Tenant_CurrentGPUMemory t) + sint (Job_GPUMemoryMB job) \<le> sint (Tenant_MaxGPUMemoryMB t) \<and>
     sint (Tenant_CurrentCPUCores t) + sint (Job_CPUCores job) \<le> sint (Tenant_MaxCPUCores t) \<and>
     sint (Tenant_CurrentMemory t) + sint (Job_MemoryMB job) \<le> sint (Tenant_MaxMemoryMB t) \<and>
     sint (Tenant_CurrentJobs t) + 1 \<le> sint (Tenant_MaxConcurrentJobs t)"
    unfolding q [symmetric] using ok ko by (cases "HasAvailableQuota t (Job_GPUCount job) (Job_GPUMemoryMB job) (Job_CPUCores job) (Job_MemoryMB job)") auto
  show "fst (SubmitJob s job now) \<noteq> None \<longrightarrow>
     SubmitJob s job now = (Some (QuotaExceededError (Tenant_ID t) ''GPUs'' (Job_GPUCount job)
        (Tenant_MaxGPUs t) (Tenant_CurrentGPUs t)), s)"
    using ok ko by (cases "HasAvailableQuota t (Job_GPUCount job) (Job_GPUMemoryMB job) (Job_CPUCores job) (Job_MemoryMB job)") auto
qed

text \<open>
  C1. The claim fails where a sum wraps around: a tenant using 1 MB of a 100 MB host-memory
  ceiling submits a valid job asking for 9223372036854775807 MB. Usage plus request exceeds
  the ceiling, yet \<open>CurrentMemory + memory\<close> wraps to a negative number, HasAvailableQuota
  holds, and SubmitJob returns nil with the job persisted and enqueued.
\<close>

theorem SubmitJob_admits_over_quota:
  "validateJob c1_job = None \<and>
   GetTenant (storage (NewScheduler c1_config ex_store)) (Job_TenantID c1_job) = Inr ex_tenant \<and>
   sint (Tenant_MaxMemoryMB ex_tenant) < sint (Tenant_CurrentMemory ex_tenant) + sint (Job_MemoryMB c1_job) \<and>
   fst (SubmitJob (NewScheduler c1_config ex_store) c1_job 7) = None \<and>
   GetJob (storage (snd (SubmitJob (NewScheduler c1_config ex_store) c1_job 7))) ''j1''
     = Inr (c1_job\<lparr>Job_State := JobStatePending, Job_SubmittedAt := 7\<rparr>) \<and>
   Peek (queue (snd (SubmitJob (NewScheduler c1_config ex_store) c1_job 7)))
     = Some (c1_job\<lparr>Job_State := JobStatePending, Job_SubmittedAt := 7\<rparr>)"
  by (simp add: SubmitJob_def validateJob_def GetTenant_def GetJob_def CreateJob_def first_row_def
      HasAvailableQuota_def Enqueue_def heap_Push_def up.simps Peek_def
      NewScheduler_def NewQueue_def heap_Init_def
      c1_job_def c1_config_def ex_job_def ex_tenant_def ex_store_def ex_config_def no_faults_def
      word_sle_eq word_sless_alt Let_def)

subsection \<open>GPU availability and the thermal option\<close>

lemmas ex_defs = ex_job_def ex_tenant_def ex_store_def ex_config_def no_faults_def ex_node_def
lemmas repo_defs = GetJob_def CreateJob_def UpdateJob_def ListJobsByState_def GetTenant_def
  UpdateTenant_def GetGPU_def UpdateGPU_def ListGPUsByNode_def GetNode_def UpdateNode_def
  ListNodes_def CreateAllocation_def GetAllocation_def UpdateAllocation_def GetJobAllocations_def
  first_row_def save_row_def save_conflict_def
lemmas scmp = word_sle_eq word_sless_alt






lemma gang_collect_available:
  assumes "set gs \<subseteq> set (gpus st)" "\<forall>g\<in>set acc. g \<in> set (gpus st) \<and> IsAvailable g now"
  shows "\<forall>g\<in>set (gang_collect request now gs acc). g \<in> set (gpus st) \<and> IsAvailable g now"
  using assms
proof (induction gs arbitrary: acc)
  case Nil
  then show ?case by simp
next
  case (Cons g rest)
  have rest: "set rest \<subseteq> set (gpus st)" and g: "g \<in> set (gpus st)"
    using Cons.prems(1) by auto
  show ?case
  proof (cases "IsAvailable g now")
    case False
    with Cons.IH [OF rest Cons.prems(2)] show ?thesis by simp
  next
    case True
    have acc': "\<forall>x\<in>set (acc @ [g]). x \<in> set (gpus st) \<and> IsAvailable x now"
      using Cons.prems(2) g True by simp
    show ?thesis
      using True acc' Cons.IH [OF rest acc'] by (simp add: Let_def)
  qed
qed









subsection \<open>Preemption and tenant usage\<close>

text \<open>No step of Preempt, nor of tryPreemption that calls it, writes the tenant table.\<close>

lemma free_gpus_tenants: "tenants (free_gpus st ids) = tenants st"
proof (induction ids arbitrary: st)
  case Nil
  show ?case by simp
next
  case (Cons k rest)
  show ?case
    by (auto simp: Cons.IH UpdateGPU_def split: sum.splits if_splits)
qed

lemma preempt_allocations_tenants:
  "tenants (preempt_allocations st as preemptorID now) = tenants st"
proof (induction as arbitrary: st)
  case Nil
  show ?case by simp
next
  case (Cons a rest)
  show ?case
    by (auto simp: Cons.IH free_gpus_tenants Let_def UpdateAllocation_def UpdateNode_def
        split: sum.splits if_splits)
qed

lemma Preempt_keeps_tenants: "tenants (snd (Preempt st victim preemptorID now)) = tenants st"
  by (auto simp: Preempt_def Let_def preempt_allocations_tenants UpdateJob_def
      split: sum.splits if_splits)

lemma preempt_victims_tenants:
  "tenants (storage (snd (preempt_victims s victims preemptorID now))) = tenants (storage s)"
proof (induction victims arbitrary: s)
  case Nil
  show ?case by simp
next
  case (Cons v rest)
  have keep: "tenants (snd (Preempt (storage s) v preemptorID now)) = tenants (storage s)"
    by (rule Preempt_keeps_tenants)
  show ?case
  proof (cases "Preempt (storage s) v preemptorID now")
    case (Pair e st')
    with keep have st': "tenants st' = tenants (storage s)" by simp
    show ?thesis
      using Pair st' by (cases e) (simp_all add: Cons.IH)
  qed
qed

lemma tryPreemption_keeps_tenants:
  "tenants (storage (snd (tryPreemption s job now))) = tenants (storage s)"
  by (simp add: tryPreemption_def preempt_victims_tenants split: sum.splits)

text \<open>
  C3. Preempt of the running job succeeds: the job is Preempted with its count incremented,
  its allocation is Preempted and stamped with the instant and the requesting job's id, its
  GPU is unbound and the node's counters are restored. The tenant's usage, though, is not
  decreased by the victim's declared resources: the tenant row is the same as before.
\<close>

theorem Preempt_leaves_tenant_usage:
  "fst (Preempt c3_store c3_victim ''j2'' 9) = None \<and>
   jobs (snd (Preempt c3_store c3_victim ''j2'' 9))
     = [c3_victim\<lparr>Job_State := JobStatePreempted, Job_PreemptedCount := 1\<rparr>] \<and>
   allocations (snd (Preempt c3_store c3_victim ''j2'' 9))
     = [c3_alloc\<lparr>Alloc_State := AllocationPreempted, Alloc_PreemptedAt := Some 9,
                  Alloc_PreemptedBy := ''j2'', Alloc_PreemptionReason := ''higher priority job''\<rparr>] \<and>
   gpus (snd (Preempt c3_store c3_victim ''j2'' 9))
     = [c3_gpu\<lparr>GPU_Allocated := False, GPU_AllocationID := [], GPU_JobID := [], GPU_TenantID := []\<rparr>] \<and>
   nodes (snd (Preempt c3_store c3_victim ''j2'' 9))
     = [c3_node\<lparr>Node_AvailableGPUs := 1, Node_AvailableCPUCores := 32, Node_AvailableMemoryMB := 1000\<rparr>] \<and>
   tenants (snd (Preempt c3_store c3_victim ''j2'' 9)) = [c3_tenant] \<and>
   Tenant_CurrentGPUs c3_tenant = Job_GPUCount c3_victim \<and>
   Tenant_CurrentGPUMemory c3_tenant = Job_GPUMemoryMB c3_victim \<and>
   Tenant_CurrentCPUCores c3_tenant = Job_CPUCores c3_victim \<and>
   Tenant_CurrentMemory c3_tenant = Job_MemoryMB c3_victim \<and>
   Tenant_CurrentJobs c3_tenant = 1 \<and> Job_GPUCount c3_victim = 1"
  by (simp add: Preempt_def free_gpu_def release_node_def
      c3_store_def c3_victim_def c3_alloc_def c3_gpu_def c3_node_def c3_tenant_def
      ex_defs repo_defs Let_def)

subsection \<open>Victim selection\<close>

text \<open>
  C6, as stated, fails on the tie-break: of two candidates of equal priority, SelectVictims
  returns the one the repository lists first, here the one started later; \<open>StartedAt\<close> is
  never read.
\<close>

theorem SelectVictims_tie_counterexample:
  "ListJobsByState c6_store JobStateRunning = Inr [c6_late, c6_early] \<and>
   is_candidate c6_store ex_job c6_late \<and> is_candidate c6_store ex_job c6_early \<and>
   Job_Priority c6_late = Job_Priority c6_early \<and>
   Job_StartedAt c6_early = Some 10 \<and> Job_StartedAt c6_late = Some 20 \<and>
   SelectVictims c6_store ex_job = Inr [c6_late]"
  by (simp add: SelectVictims_def is_candidate_def c6_store_def c6_late_def c6_early_def
      ex_defs repo_defs scmp Let_def)

text \<open>
  The selection loop returns the first entry of least priority among those below the
  initial bound, and leaves the accumulator alone when there is none.
\<close>

lemma pick_lowest_spec:
  "pick_lowest cs (v0, l0) = (v, l) \<Longrightarrow>
     (if \<forall>c\<in>set cs. \<not> sint (Job_Priority c) < sint l0 then v = v0 \<and> l = l0
      else \<exists>pre x post. cs = pre @ x # post \<and> v = Some x \<and> l = Job_Priority x \<and>
             sint (Job_Priority x) < sint l0 \<and>
             (\<forall>c\<in>set pre. sint (Job_Priority x) < sint (Job_Priority c)) \<and>
             (\<forall>c\<in>set post. sint (Job_Priority x) \<le> sint (Job_Priority c)))"
proof (induction cs arbitrary: v0 l0)
  case Nil
  then show ?case by simp
next
  case (Cons c rest)
  show ?case
  proof (cases "sint (Job_Priority c) < sint l0")
    case True
    with Cons.prems have run: "pick_lowest rest (Some c, Job_Priority c) = (v, l)"
      by (simp add: word_sless_alt)
    note ih = Cons.IH [OF run]
    show ?thesis
    proof (cases "\<forall>d\<in>set rest. \<not> sint (Job_Priority d) < sint (Job_Priority c)")
      case none: True
      with ih have "v = Some c" "l = Job_Priority c" by simp_all
      moreover have "\<forall>d\<in>set rest. sint (Job_Priority c) \<le> sint (Job_Priority d)"
        using none by (simp add: not_less)
      ultimately have "c # rest = [] @ c # rest \<and> v = Some c \<and> l = Job_Priority c \<and>
             sint (Job_Priority c) < sint l0 \<and>
             (\<forall>d\<in>set []. sint (Job_Priority c) < sint (Job_Priority d)) \<and>
             (\<forall>d\<in>set rest. sint (Job_Priority c) \<le> sint (Job_Priority d))"
        using True by simp
      then have "\<exists>pre x post. c # rest = pre @ x # post \<and> v = Some x \<and> l = Job_Priority x \<and>
             sint (Job_Priority x) < sint l0 \<and>
             (\<forall>d\<in>set pre. sint (Job_Priority x) < sint (Job_Priority d)) \<and>
             (\<forall>d\<in>set post. sint (Job_Priority x) \<le> sint (Job_Priority d))"
        by blast
      with True show ?thesis by auto
    next
      case some: False
      with ih obtain pre x post where
        split: "rest = pre @ x # post" and v: "v = Some x" and l: "l = Job_Priority x"
        and lt: "sint (Job_Priority x) < sint (Job_Priority c)"
        and pre: "\<forall>d\<in>set pre. sint (Job_Priority x) < sint (Job_Priority d)"
        and post: "\<forall>d\<in>set post. sint (Job_Priority x) \<le> sint (Job_Priority d)"
        by auto
      have "c # rest = (c # pre) @ x # post \<and> v = Some x \<and> l = Job_Priority x \<and>
             sint (Job_Priority x) < sint l0 \<and>
             (\<forall>d\<in>set (c # pre). sint (Job_Priority x) < sint (Job_Priority d)) \<and>
             (\<forall>d\<in>set post. sint (Job_Priority x) \<le> sint (Job_Priority d))"
        using split v l lt pre post True by auto
      then have "\<exists>pre x post. c # rest = pre @ x # post \<and> v = Some x \<and> l = Job_Priority x \<and>
             sint (Job_Priority x) < sint l0 \<and>
             (\<forall>d\<in>set pre. sint (Job_Priority x) < sint (Job_Priority d)) \<and>
             (\<forall>d\<in>set post. sint (Job_Priority x) \<le> sint (Job_Priority d))"
        by blast
      with True show ?thesis by auto
    qed
  next
    case False
    with Cons.prems have run: "pick_lowest rest (v0, l0) = (v, l)"
      by (simp add: word_sless_alt)
    note ih = Cons.IH [OF run]
    show ?thesis
    proof (cases "\<forall>d\<in>set rest. \<not> sint (Job_Priority d) < sint l0")
      case True
      with ih False show ?thesis by simp
    next
      case some: False
      with ih obtain pre x post where
        split: "rest = pre @ x # post" and v: "v = Some x" and l: "l = Job_Priority x"
        and lt: "sint (Job_Priority x) < sint l0"
        and pre: "\<forall>d\<in>set pre. sint (Job_Priority x) < sint (Job_Priority d)"
        and post: "\<forall>d\<in>set post. sint (Job_Priority x) \<le> sint (Job_Priority d)"
        by auto
      have "c # rest = (c # pre) @ x # post \<and> v = Some x \<and> l = Job_Priority x \<and>
             sint (Job_Priority x) < sint l0 \<and>
             (\<forall>d\<in>set (c # pre). sint (Job_Priority x) < sint (Job_Priority d)) \<and>
             (\<forall>d\<in>set post. sint (Job_Priority x) \<le> sint (Job_Priority d))"
        using split v l lt pre post False by auto
      then have "\<exists>pre x post. c # rest = pre @ x # post \<and> v = Some x \<and> l = Job_Priority x \<and>
             sint (Job_Priority x) < sint l0 \<and>
             (\<forall>d\<in>set pre. sint (Job_Priority x) < sint (Job_Priority d)) \<and>
             (\<forall>d\<in>set post. sint (Job_Priority x) \<le> sint (Job_Priority d))"
        by blast
      with some show ?thesis by auto
    qed
  qed
qed

text \<open>
  C6, amended: victim selection enumerates the jobs in state Running, keeps as candidates
  those of priority strictly below the requesting job's whose tenant can be read and has
  \<open>allow_preemption = true\<close>, and returns the empty set when there is no candidate;
  when some candidate has priority below 999999 it returns the single candidate of lowest
  priority, ties broken by the order in which the repository lists the running jobs (the
  first listed wins).
\<close>

theorem SelectVictims_lowest_first_listed:
  assumes "ListJobsByState st JobStateRunning = Inr running"
  shows "(filter (is_candidate st requestingJob) running = [] \<longrightarrow>
            SelectVictims st requestingJob = Inr []) \<and>
         ((\<exists>c\<in>set (filter (is_candidate st requestingJob) running). Job_Priority c <s 999999) \<longrightarrow>
            (\<exists>pre victim post.
               filter (is_candidate st requestingJob) running = pre @ victim # post \<and>
               SelectVictims st requestingJob = Inr [victim] \<and>
               (\<forall>c\<in>set pre. Job_Priority victim <s Job_Priority c) \<and>
               (\<forall>c\<in>set post. Job_Priority victim \<le>s Job_Priority c))) \<and>
         (\<forall>job. is_candidate st requestingJob job \<longleftrightarrow>
            Job_Priority job <s Job_Priority requestingJob \<and>
            (\<exists>tenant. GetTenant st (Job_TenantID job) = Inr tenant \<and> Tenant_AllowPreemption tenant))"
proof (intro conjI impI allI)
  let ?cs = "filter (is_candidate st requestingJob) running"
  show "SelectVictims st requestingJob = Inr []" if "?cs = []"
    using that assms by (simp add: SelectVictims_def)
  show "is_candidate st requestingJob job \<longleftrightarrow>
            Job_Priority job <s Job_Priority requestingJob \<and>
            (\<exists>tenant. GetTenant st (Job_TenantID job) = Inr tenant \<and> Tenant_AllowPreemption tenant)" for job
    by (cases "GetTenant st (Job_TenantID job)") (simp_all add: is_candidate_def)
  assume ex: "\<exists>c\<in>set ?cs. Job_Priority c <s 999999"
  then obtain c0 where "c0 \<in> set ?cs" ..
  then have "?cs \<noteq> []" by (metis empty_iff empty_set)
  then have ne: "length ?cs \<noteq> 0" by (simp only: length_0_conv not_False_eq_True)
  obtain v l where run: "pick_lowest ?cs (None, 999999) = (v, l)"
    by (cases "pick_lowest ?cs (None, 999999)")
  from ex have "\<not> (\<forall>c\<in>set ?cs. \<not> sint (Job_Priority c) < sint (999999 :: int64))"
    unfolding word_sless_alt by blast
  with pick_lowest_spec [OF run] obtain pre x post where
    split: "?cs = pre @ x # post" and v: "v = Some x"
    and pre: "\<forall>d\<in>set pre. sint (Job_Priority x) < sint (Job_Priority d)"
    and post: "\<forall>d\<in>set post. sint (Job_Priority x) \<le> sint (Job_Priority d)"
    by (auto simp only: if_False)
  have "SelectVictims st requestingJob = Inr [x]"
    using assms ne run v by (simp add: SelectVictims_def Let_def)
  with split pre post
  show "\<exists>pre victim post. ?cs = pre @ victim # post \<and>
               SelectVictims st requestingJob = Inr [victim] \<and>
               (\<forall>c\<in>set pre. Job_Priority victim <s Job_Priority c) \<and>
               (\<forall>c\<in>set post. Job_Priority victim \<le>s Job_Priority c)"
    unfolding word_sless_alt word_sle_eq by blast
qed


theorem SelectVictims_lowest_first_listed_witness:
  "ListJobsByState c6_store JobStateRunning = Inr [c6_late, c6_early] \<and>
   (\<exists>victim\<in>set [c6_late, c6_early]. SelectVictims c6_store ex_job = Inr [victim])"
proof -
  have list: "ListJobsByState c6_store JobStateRunning = Inr [c6_late, c6_early]"
    by (simp add: c6_store_def c6_late_def c6_early_def ex_defs repo_defs)
  have cands: "filter (is_candidate c6_store ex_job) [c6_late, c6_early] = [c6_late, c6_early]"
    by (simp add: is_candidate_def c6_store_def c6_late_def c6_early_def ex_defs repo_defs scmp)
  have low: "\<exists>c\<in>set (filter (is_candidate c6_store ex_job) [c6_late, c6_early]).
               Job_Priority c <s 999999"
    unfolding cands by (simp add: c6_late_def scmp)
  from SelectVictims_lowest_first_listed [OF list, of ex_job] low
  obtain pre victim post where
    "filter (is_candidate c6_store ex_job) [c6_late, c6_early] = pre @ victim # post"
    and sel: "SelectVictims c6_store ex_job = Inr [victim]"
    by blast
  then have "victim \<in> set [c6_late, c6_early]"
    unfolding cands by (metis in_set_conv_decomp)
  with list sel show ?thesis by blast
qed

subsection \<open>Releasing an allocation twice\<close>








declare free_gpus.simps(2) [simp del]










text \<open>
  Where the write of a GPU fails, the failure is logged and Free still succeeds: the
  allocation is Completed and the node's counters are restored, but the GPU stays bound.
\<close>

lemma Free_with_failed_GPU_write:
  "fst (Free c5_store ''alloc-5'' 9) = None \<and>
   gpus (snd (Free c5_store ''alloc-5'' 9)) = [c3_gpu] \<and> GPU_Allocated c3_gpu \<and>
   map Alloc_State (allocations (snd (Free c5_store ''alloc-5'' 9))) = [AllocationCompleted] \<and>
   map Node_AvailableGPUs (nodes (snd (Free c5_store ''alloc-5'' 9))) = [1]"
  by (simp add: Free_def CalculateDuration_def Sub_def free_gpus.simps free_gpu_def release_node_def
      c5_store_def c3_store_def c3_alloc_def c3_gpu_def c3_node_def ex_defs repo_defs Let_def)



subsection \<open>Head-of-line blocking\<close>

text \<open>
  An allocation attempt either succeeds, or returns an error and leaves the repository as
  it was.
\<close>

lemma createAllocation_outcome:
  "createAllocation st request node gs now = ((res, e), st') \<Longrightarrow>
     (e = None \<and> (\<exists>r. res = Some r \<and> Res_Success r)) \<or> (e \<noteq> None \<and> st' = st)"
  unfolding createAllocation_def Let_def
  by (cases "CreateAllocation st \<lparr>Alloc_ID = generateAllocationID now,
                        Alloc_JobID = Req_JobID request,
                        Alloc_TenantID = Req_TenantID request,
                        Alloc_State = AllocationActive,
                        Alloc_GPUIDs = map GPU_ID gs,
                        Alloc_NodeID = Node_ID node,
                        Alloc_CPUCores = Req_CPUCores request,
                        Alloc_MemoryMB = Req_MemoryMB request,
                        Alloc_AllocatedAt = now,
                        Alloc_PlannedDuration = 3600000000000,
                        Alloc_ActualDuration = 0,
                        Alloc_PreemptedAt = None,
                        Alloc_PreemptedBy = [],
                        Alloc_PreemptionReason = [],
                        Alloc_CompletedAt = None\<rparr>") auto

lemma gangSchedule_outcome:
  "gangSchedule st request ns now = ((res, e), st') \<Longrightarrow>
     (e = None \<and> (\<exists>r. res = Some r \<and> Res_Success r)) \<or> (e \<noteq> None \<and> st' = st)"
proof (induction ns)
  case Nil
  then show ?case by auto
next
  case (Cons node rest)
  show ?case
  proof (cases "Req_GPUCount request \<le>s Node_AvailableGPUs node")
    case False
    with Cons show ?thesis by simp
  next
    case True
    show ?thesis
    proof (cases "ListGPUsByNode st (Node_ID node)")
      case (Inl err)
      with Cons True show ?thesis by simp
    next
      case (Inr gs)
      show ?thesis
      proof (cases "int (length (gang_collect request now gs [])) = sint (Req_GPUCount request)")
        case False
        with Cons True Inr show ?thesis by (simp add: Let_def)
      next
        case eq: True
        with Cons.prems True Inr
        have "createAllocation st request node (gang_collect request now gs []) now = ((res, e), st')"
          by (simp add: Let_def)
        then show ?thesis by (rule createAllocation_outcome)
      qed
    qed
  qed
qed

lemma bestFitSchedule_outcome:
  assumes "bestFitSchedule st request ns now = ((res, e), st')"
  shows "(e = None \<and> (\<exists>r. res = Some r \<and> Res_Success r)) \<or> (e \<noteq> None \<and> st' = st)"
proof (cases "bestFit_loop st request now ns (None, [], 999999)")
  case (Inl err)
  with assms show ?thesis by (auto simp: bestFitSchedule_def)
next
  case (Inr best)
  obtain bn bg w where best: "best = (bn, bg, w)" by (cases best)
  show ?thesis
  proof (cases bn)
    case None
    with assms Inr best show ?thesis by (auto simp: bestFitSchedule_def)
  next
    case (Some node)
    with assms Inr best have "createAllocation st request node bg now = ((res, e), st')"
      by (simp add: bestFitSchedule_def)
    then show ?thesis by (rule createAllocation_outcome)
  qed
qed

lemma Allocate_outcome:
  assumes "Allocate st request now = ((res, e), st')"
  shows "(e = None \<and> (\<exists>r. res = Some r \<and> Res_Success r)) \<or> (e \<noteq> None \<and> st' = st)"
proof (cases "ListNodes st")
  case (Inl err)
  with assms show ?thesis by (auto simp: Allocate_def)
next
  case (Inr ns)
  let ?avail = "filter (\<lambda>node. HasCapacity node (Req_GPUCount request) (Req_CPUCores request)
                                  (Req_MemoryMB request)) ns"
  show ?thesis
  proof (cases "length ?avail = 0")
    case True
    with assms Inr show ?thesis by (auto simp: Allocate_def Let_def)
  next
    case False
    show ?thesis
    proof (cases "Req_GangScheduling request")
      case True
      with assms Inr False have "gangSchedule st request ?avail now = ((res, e), st')"
        by (simp add: Allocate_def Let_def)
      then show ?thesis by (rule gangSchedule_outcome)
    next
      case gang: False
      with assms Inr False have "bestFitSchedule st request ?avail now = ((res, e), st')"
        by (simp add: Allocate_def Let_def)
      then show ?thesis by (rule bestFitSchedule_outcome)
    qed
  qed
qed

lemma tryAllocateJob_failure:
  assumes "fst (tryAllocateJob st job now) \<noteq> (True, None)"
  shows "\<exists>err. tryAllocateJob st job now = ((False, Some err), st)"
proof -
  let ?request = "\<lparr>Req_JobID = Job_ID job, Req_TenantID = Job_TenantID job,
                     Req_GPUCount = Job_GPUCount job, Req_GPUMemoryMB = Job_GPUMemoryMB job,
                     Req_CPUCores = Job_CPUCores job, Req_MemoryMB = Job_MemoryMB job,
                     Req_GangScheduling = Job_GangScheduling job\<rparr>"
  obtain res e st' where run: "Allocate st ?request now = ((res, e), st')"
    by (metis prod.exhaust)
  from Allocate_outcome [OF run] show ?thesis
  proof
    assume "e = None \<and> (\<exists>r. res = Some r \<and> Res_Success r)"
    with run assms show ?thesis by (auto simp: tryAllocateJob_def Let_def)
  next
    assume "e \<noteq> None \<and> st' = st"
    with run show ?thesis by (auto simp: tryAllocateJob_def Let_def split: option.splits)
  qed
qed

lemma tryPreemption_no_victim:
  assumes "\<not> EnablePreemption (config s) \<or>
           (\<forall>victims. SelectVictims (storage s) job = Inr victims \<longrightarrow> victims = [])"
  shows "tryPreemption s job now = (False, s)"
  using assms by (cases "SelectVictims (storage s) job") (auto simp: tryPreemption_def)

text \<open>
  C7. Every iteration of every scheduling cycle is a call of \<open>schedulingLoop\<close> on the
  scheduler as the cycle has left it so far. If at that point the job at the head of the
  queue cannot be allocated, and preemption is disabled, or is not attempted because the
  allocation error is not a resource error, or victim selection finds no victim, the loop
  returns at once with the scheduler unchanged: the head is still at the head, no job
  behind it has been dequeued, and no job has been moved to Running.
\<close>

theorem head_of_line_blocking:
  assumes head: "Peek (queue s) = Some job"
    and fail: "fst (tryAllocateJob (storage s) job (clk k)) \<noteq> (True, None)"
    and none: "\<not> EnablePreemption (config s) \<or>
               (\<exists>err. snd (fst (tryAllocateJob (storage s) job (clk k))) = Some err \<and>
                      \<not> IsResourceError err) \<or>
               (\<forall>victims. SelectVictims (storage s) job = Inr victims \<longrightarrow> victims = [])"
  shows "schedulingLoop clk k s = Some s"
proof -
  from head have nonempty: "\<not> IsEmpty (queue s)"
    by (auto simp: Peek_def IsEmpty_def Size_def split: if_splits)
  from tryAllocateJob_failure [OF fail] obtain err
    where att: "tryAllocateJob (storage s) job (clk k) = ((False, Some err), storage s)" ..
  have same: "s\<lparr>storage := storage s\<rparr> = s" by simp
  show ?thesis
  proof (cases "EnablePreemption (config s) \<and> IsResourceError err")
    case False
    then show ?thesis
      by (subst schedulingLoop.simps) (auto simp: nonempty head att same)
  next
    case True
    with none att
    have "\<not> EnablePreemption (config s) \<or>
          (\<forall>victims. SelectVictims (storage s) job = Inr victims \<longrightarrow> victims = [])"
      by auto
    then have pre: "tryPreemption s job (clk k) = (False, s)"
      by (rule tryPreemption_no_victim)
    show ?thesis
      by (subst schedulingLoop.simps) (simp add: nonempty head att same pre)
  qed
qed

theorem head_of_line_blocking_witness:
  "Peek (queue c7_sched) = Some ex_job \<and>
   fst (tryAllocateJob (storage c7_sched) ex_job 7) = (False, Some ErrInsufficientResources) \<and>
   SelectVictims (storage c7_sched) ex_job = Inr [] \<and>
   schedulingLoop (\<lambda>k. 7) 1 c7_sched = Some c7_sched \<and>
   Peek (queue c7_gang_sched) = Some c7_gang_job \<and>
   fst (tryAllocateJob (storage c7_gang_sched) c7_gang_job 7) = (False, Some ErrGangSchedulingFailed) \<and>
   \<not> IsResourceError ErrGangSchedulingFailed \<and>
   EnablePreemption (config c7_gang_sched) \<and>
   SelectVictims (storage c7_gang_sched) c7_gang_job = Inr [c6_late] \<and>
   schedulingLoop (\<lambda>k. 7) 1 c7_gang_sched = Some c7_gang_sched"
proof -
  have head: "Peek (queue c7_sched) = Some ex_job"
    by (simp add: Peek_def c7_sched_def c7_queue_def)
  have att: "fst (tryAllocateJob (storage c7_sched) ex_job 7) = (False, Some ErrInsufficientResources)"
    by (simp add: tryAllocateJob_def Allocate_def c7_sched_def ex_defs repo_defs Let_def)
  have sel: "SelectVictims (storage c7_sched) ex_job = Inr []"
    by (simp add: SelectVictims_def c7_sched_def ex_defs repo_defs Let_def)
  from att have fail: "fst (tryAllocateJob (storage c7_sched) ex_job ((\<lambda>k. 7) (1::nat))) \<noteq> (True, None)"
    by simp
  from sel have none: "\<not> EnablePreemption (config c7_sched) \<or>
      (\<exists>err. snd (fst (tryAllocateJob (storage c7_sched) ex_job ((\<lambda>k. 7) (1::nat)))) = Some err \<and>
             \<not> IsResourceError err) \<or>
      (\<forall>victims. SelectVictims (storage c7_sched) ex_job = Inr victims \<longrightarrow> victims = [])"
    by simp
  have ghead: "Peek (queue c7_gang_sched) = Some c7_gang_job"
    by (simp add: Peek_def c7_gang_sched_def)
  have gatt: "fst (tryAllocateJob (storage c7_gang_sched) c7_gang_job 7)
      = (False, Some ErrGangSchedulingFailed)"
    by (simp add: tryAllocateJob_def Allocate_def HasCapacity_def IsAvailable_def
        c7_gang_sched_def c7_gang_job_def c9_store_def c9_gpu_def ex_defs repo_defs Let_def scmp)
  have gon: "EnablePreemption (config c7_gang_sched)"
    by (simp add: c7_gang_sched_def ex_config_def)
  have gsel: "SelectVictims (storage c7_gang_sched) c7_gang_job = Inr [c6_late]"
    by (simp add: SelectVictims_def is_candidate_def c7_gang_sched_def c7_gang_job_def
        c9_store_def c6_late_def ex_defs repo_defs Let_def scmp)
  from gatt have gfail: "fst (tryAllocateJob (storage c7_gang_sched) c7_gang_job ((\<lambda>k. 7) (1::nat)))
      \<noteq> (True, None)"
    by simp
  from gatt have gnone: "\<not> EnablePreemption (config c7_gang_sched) \<or>
      (\<exists>err. snd (fst (tryAllocateJob (storage c7_gang_sched) c7_gang_job ((\<lambda>k. 7) (1::nat))))
               = Some err \<and> \<not> IsResourceError err) \<or>
      (\<forall>victims. SelectVictims (storage c7_gang_sched) c7_gang_job = Inr victims \<longrightarrow> victims = [])"
    by simp
  from head_of_line_blocking [OF head fail none] head_of_line_blocking [OF ghead gfail gnone]
    head att sel ghead gatt gon gsel
  show ?thesis by simp
qed

subsection \<open>Gang allocation\<close>

lemma generateAllocationID_5: "generateAllocationID 5 = ''alloc-5''"
  by (simp add: generateAllocationID_def format_int_def digits.simps)

text \<open>
  C4. A gang request for the two GPUs of node n1, in a repository where the write of g2
  fails: the allocator reports success, the Active allocation lists g1 and g2 and the node
  is charged for two GPUs, but only g1 is bound; g2 stays unallocated. The outcome is neither
  of the two the claim allows.
\<close>

theorem gang_allocation_partial_binding:
  "fst (Allocate c4_store c4_request 5) =
     (Some \<lparr>Res_Success = True, Res_AllocationID = ''alloc-5'', Res_GPUIDs = [''g1'', ''g2''],
            Res_NodeID = ''n1'', Res_Message = [], Res_Timestamp = 5\<rparr>, None) \<and>
   map Alloc_GPUIDs (allocations (snd (Allocate c4_store c4_request 5))) = [[''g1'', ''g2'']] \<and>
   map Alloc_State (allocations (snd (Allocate c4_store c4_request 5))) = [AllocationActive] \<and>
   gpus (snd (Allocate c4_store c4_request 5)) =
     [c4_gpu1\<lparr>GPU_Allocated := True, GPU_AllocationID := ''alloc-5'', GPU_JobID := ''j1'',
               GPU_TenantID := ''t1''\<rparr>, c4_gpu2] \<and>
   \<not> GPU_Allocated c4_gpu2 \<and>
   nodes (snd (Allocate c4_store c4_request 5)) =
     [c4_node\<lparr>Node_AvailableGPUs := 0, Node_AvailableCPUCores := 28, Node_AvailableMemoryMB := 950\<rparr>]"
  by (simp add: Allocate_def HasCapacity_def createAllocation_def mark_allocated_def IsAvailable_def Sub_def
      generateAllocationID_5 c4_store_def c4_request_def c4_node_def c4_gpu1_def c4_gpu2_def
      c4_faults_def c9_request_def c9_gpu_def ex_defs repo_defs scmp Let_def)


text \<open>
  Where the GPU and node writes succeed (no fault in the driver and no empty key), gang
  allocation is all-or-nothing: it either
  returns an error (gang-scheduling failure, or the wrapped failure to create the
  allocation row) and changes nothing, or it creates one Active allocation on one node of
  the list, binds exactly the requested number of distinct available GPUs of that node,
  and decrements that node's counters.
\<close>

lemma mark_allocated_ID: "GPU_ID (mark_allocated request aid g) = GPU_ID g"
  by (simp add: mark_allocated_def)

lemma mark_gpus_frame:
  "broken (mark_gpus st request aid gs) = broken st \<and>
   allocations (mark_gpus st request aid gs) = allocations st \<and>
   nodes (mark_gpus st request aid gs) = nodes st \<and>
   jobs (mark_gpus st request aid gs) = jobs st \<and>
   tenants (mark_gpus st request aid gs) = tenants st"
proof (induction gs arbitrary: st)
  case Nil
  show ?case by simp
next
  case (Cons g rest)
  show ?case
    by (cases "broken st OpUpdateGPU (GPU_ID g)") (simp_all add: UpdateGPU_def mark_allocated_ID Cons.IH)
qed

lemma save_row_distinct:
  assumes "distinct (map key rows0)" "g \<in> set rows0" "\<And>r. key (f r) = key r" "key g' = key g"
  shows "save_row key g' (map f rows0) = map (\<lambda>r. if r = g then g' else f r) rows0"
proof -
  have same: "key r = key g \<longleftrightarrow> r = g" if "r \<in> set rows0" for r
    using that assms(1,2) by (auto simp: distinct_map inj_on_def)
  have "key g' \<in> set (map key (map f rows0))"
    using assms(2,3,4) by (auto simp: image_iff intro!: bexI [of _ g])
  then have "save_row key g' (map f rows0)
      = map (\<lambda>r. if key r = key g' then g' else r) (map f rows0)"
    by (simp only: save_row_def if_True)
  also have "\<dots> = map (\<lambda>r. if r = g then g' else f r) rows0"
    using same by (simp add: assms(3,4))
  finally show ?thesis .
qed

lemma mark_gpus_rows:
  assumes "distinct (map GPU_ID rows0)" "set gs \<subseteq> set rows0"
    and "gpus st = map (\<lambda>r. if r \<in> D then mark_allocated request aid r else r) rows0"
    and "\<forall>g\<in>set gs. \<not> broken st OpUpdateGPU (GPU_ID g) \<and> GPU_ID g \<noteq> []"
  shows "gpus (mark_gpus st request aid gs)
     = map (\<lambda>r. if r \<in> D \<union> set gs then mark_allocated request aid r else r) rows0"
  using assms(2-4)
proof (induction gs arbitrary: st D)
  case Nil
  then show ?case by simp
next
  case (Cons g rest)
  let ?f = "\<lambda>r. if r \<in> D then mark_allocated request aid r else r"
  let ?st = "st\<lparr>gpus := save_row GPU_ID (mark_allocated request aid g) (gpus st)\<rparr>"
  from Cons.prems have g: "g \<in> set rows0" and rest: "set rest \<subseteq> set rows0"
    and ok: "\<not> broken st OpUpdateGPU (GPU_ID g)" "GPU_ID g \<noteq> []"
    and ok': "\<forall>x\<in>set rest. \<not> broken ?st OpUpdateGPU (GPU_ID x) \<and> GPU_ID x \<noteq> []"
    by simp_all
  have "save_row GPU_ID (mark_allocated request aid g) (map ?f rows0)
      = map (\<lambda>r. if r = g then mark_allocated request aid g else ?f r) rows0"
    using assms(1) g by (rule save_row_distinct) (simp_all add: mark_allocated_ID)
  also have "\<dots> = map (\<lambda>r. if r \<in> insert g D then mark_allocated request aid r else r) rows0"
    by (rule map_cong) auto
  finally have rows: "gpus ?st
      = map (\<lambda>r. if r \<in> insert g D then mark_allocated request aid r else r) rows0"
    by (simp add: Cons.prems(2))
  have step: "mark_gpus st request aid (g # rest) = mark_gpus ?st request aid rest"
    using ok by (simp add: UpdateGPU_def save_conflict_def mark_allocated_ID)
  from Cons.IH [OF rest rows ok'] show ?case
    unfolding step by simp
qed

lemma gang_collect_sound:
  assumes "distinct (acc @ gs)"
  shows "distinct (gang_collect request now gs acc) \<and>
         set (gang_collect request now gs acc) \<subseteq> set acc \<union> set gs"
  using assms
proof (induction gs arbitrary: acc)
  case Nil
  then show ?case by simp
next
  case (Cons g rest)
  then have d1: "distinct (acc @ rest)" and d2: "distinct ((acc @ [g]) @ rest)"
    by auto
  from Cons.IH [OF d1] Cons.IH [OF d2] d2 show ?case
    by (auto simp: Let_def)
qed

lemma createAllocation_commit:
  assumes run: "createAllocation st request node gs now = ((res, None), st')"
    and pk: "distinct (map GPU_ID (gpus st))" and listed: "set gs \<subseteq> set (gpus st)"
    and gpu_writes: "\<forall>g\<in>set gs. \<not> broken st OpUpdateGPU (GPU_ID g) \<and> GPU_ID g \<noteq> []"
    and node_write: "\<not> broken st OpUpdateNode (Node_ID node)" "Node_ID node \<noteq> []"
  shows "\<exists>allocation.
           allocations st' = allocations st @ [allocation] \<and>
           Alloc_ID allocation = generateAllocationID now \<and>
           Alloc_State allocation = AllocationActive \<and>
           Alloc_GPUIDs allocation = map GPU_ID gs \<and>
           Alloc_NodeID allocation = Node_ID node \<and>
           gpus st' = map (\<lambda>g. if g \<in> set gs
                                  then mark_allocated request (generateAllocationID now) g else g) (gpus st) \<and>
           nodes st' = save_row Node_ID
             (node\<lparr>Node_AvailableGPUs := Node_AvailableGPUs node - of_nat (length gs),
                   Node_AvailableCPUCores := Node_AvailableCPUCores node - Req_CPUCores request,
                   Node_AvailableMemoryMB := Node_AvailableMemoryMB node - Req_MemoryMB request\<rparr>)
             (nodes st) \<and>
           jobs st' = jobs st \<and> tenants st' = tenants st"
proof -
  let ?aid = "generateAllocationID now"
  define allocation where "allocation = \<lparr>Alloc_ID = ?aid,
                        Alloc_JobID = Req_JobID request,
                        Alloc_TenantID = Req_TenantID request,
                        Alloc_State = AllocationActive,
                        Alloc_GPUIDs = map GPU_ID gs,
                        Alloc_NodeID = Node_ID node,
                        Alloc_CPUCores = Req_CPUCores request,
                        Alloc_MemoryMB = Req_MemoryMB request,
                        Alloc_AllocatedAt = now,
                        Alloc_PlannedDuration = 3600000000000,
                        Alloc_ActualDuration = 0,
                        Alloc_PreemptedAt = None,
                        Alloc_PreemptedBy = [],
                        Alloc_PreemptionReason = [],
                        Alloc_CompletedAt = None\<rparr>"
  define node' where "node' = node\<lparr>Node_AvailableGPUs := Node_AvailableGPUs node - of_nat (length gs),
                   Node_AvailableCPUCores := Node_AvailableCPUCores node - Req_CPUCores request,
                   Node_AvailableMemoryMB := Node_AvailableMemoryMB node - Req_MemoryMB request\<rparr>"
  have unfold: "createAllocation st request node gs now =
      (case CreateAllocation st allocation of
         Inl err \<Rightarrow> ((None, Some (Wrapped ''failed to create allocation'' err)), st)
       | Inr st1 \<Rightarrow>
           ((Some \<lparr>Res_Success = True, Res_AllocationID = ?aid, Res_GPUIDs = map GPU_ID gs,
                    Res_NodeID = Node_ID node, Res_Message = [], Res_Timestamp = now\<rparr>, None),
            (case UpdateNode (mark_gpus st1 request ?aid gs) node' of
               Inl err \<Rightarrow> mark_gpus st1 request ?aid gs | Inr st'' \<Rightarrow> st'')))"
    by (simp add: createAllocation_def allocation_def node'_def Let_def split: sum.splits)
  from run obtain st1 where create: "CreateAllocation st allocation = Inr st1"
    unfolding unfold by (cases "CreateAllocation st allocation") simp_all
  then have st1: "st1 = st\<lparr>allocations := allocations st @ [allocation]\<rparr>"
    by (auto simp: CreateAllocation_def split: if_splits)
  let ?sm = "mark_gpus st1 request ?aid gs"
  have frame: "broken ?sm = broken st" "allocations ?sm = allocations st @ [allocation]"
    "nodes ?sm = nodes st" "jobs ?sm = jobs st" "tenants ?sm = tenants st"
    using mark_gpus_frame [of st1 request ?aid gs] by (simp_all add: st1)
  have "gpus st1 = map (\<lambda>r. if r \<in> {} then mark_allocated request ?aid r else r) (gpus st)"
    by (simp add: st1)
  moreover have "\<forall>g\<in>set gs. \<not> broken st1 OpUpdateGPU (GPU_ID g) \<and> GPU_ID g \<noteq> []"
    using gpu_writes by (simp add: st1)
  ultimately have "gpus ?sm
      = map (\<lambda>r. if r \<in> {} \<union> set gs then mark_allocated request ?aid r else r) (gpus st)"
    by (intro mark_gpus_rows [OF pk listed])
  then have rows: "gpus ?sm
      = map (\<lambda>r. if r \<in> set gs then mark_allocated request ?aid r else r) (gpus st)"
    by simp
  have "UpdateNode ?sm node' = Inr (?sm\<lparr>nodes := save_row Node_ID node' (nodes ?sm)\<rparr>)"
    using node_write by (simp add: UpdateNode_def save_conflict_def frame node'_def)
  with run create have st': "st' = ?sm\<lparr>nodes := save_row Node_ID node' (nodes ?sm)\<rparr>"
    unfolding unfold by simp
  have "allocations st' = allocations st @ [allocation] \<and>
           Alloc_ID allocation = ?aid \<and>
           Alloc_State allocation = AllocationActive \<and>
           Alloc_GPUIDs allocation = map GPU_ID gs \<and>
           Alloc_NodeID allocation = Node_ID node \<and>
           gpus st' = map (\<lambda>g. if g \<in> set gs then mark_allocated request ?aid g else g) (gpus st) \<and>
           nodes st' = save_row Node_ID node' (nodes st) \<and>
           jobs st' = jobs st \<and> tenants st' = tenants st"
    by (simp add: st' frame rows allocation_def)
  then show ?thesis unfolding node'_def by (rule exI)
qed


lemma createAllocation_error:
  assumes "createAllocation st request node gs now = ((res, Some err), st')"
  shows "err = Wrapped ''failed to create allocation'' ErrDatabase \<and> st' = st"
proof -
  let ?allocation = "\<lparr>Alloc_ID = generateAllocationID now,
                        Alloc_JobID = Req_JobID request,
                        Alloc_TenantID = Req_TenantID request,
                        Alloc_State = AllocationActive,
                        Alloc_GPUIDs = map GPU_ID gs,
                        Alloc_NodeID = Node_ID node,
                        Alloc_CPUCores = Req_CPUCores request,
                        Alloc_MemoryMB = Req_MemoryMB request,
                        Alloc_AllocatedAt = now,
                        Alloc_PlannedDuration = 3600000000000,
                        Alloc_ActualDuration = 0,
                        Alloc_PreemptedAt = None,
                        Alloc_PreemptedBy = [],
                        Alloc_PreemptionReason = [],
                        Alloc_CompletedAt = None\<rparr>"
  show ?thesis
  proof (cases "CreateAllocation st ?allocation")
    case (Inl e)
    then have "e = ErrDatabase" by (auto simp: CreateAllocation_def split: if_splits)
    with assms Inl show ?thesis by (simp add: createAllocation_def Let_def)
  next
    case (Inr st1)
    with assms show ?thesis by (simp add: createAllocation_def Let_def)
  qed
qed

lemma gangSchedule_all_or_nothing:
  assumes run: "gangSchedule st request ns now = ((res, e), st')"
    and pk: "distinct (map GPU_ID (gpus st))"
    and gpu_writes: "\<forall>k. \<not> broken st OpUpdateGPU k" "[] \<notin> set (map GPU_ID (gpus st))"
    and node_writes: "\<forall>k. \<not> broken st OpUpdateNode k" "\<forall>node\<in>set ns. Node_ID node \<noteq> []"
  shows "((e = Some ErrGangSchedulingFailed \<or>
           e = Some (Wrapped ''failed to create allocation'' ErrDatabase)) \<and> st' = st) \<or>
         (e = None \<and>
          (\<exists>node gs allocation.
             node \<in> set ns \<and> int (length gs) = sint (Req_GPUCount request) \<and> distinct gs \<and>
             (\<forall>g\<in>set gs. g \<in> set (gpus st) \<and> GPU_NodeID g = Node_ID node \<and> IsAvailable g now) \<and>
             allocations st' = allocations st @ [allocation] \<and>
             Alloc_ID allocation = generateAllocationID now \<and>
             Alloc_State allocation = AllocationActive \<and>
             Alloc_GPUIDs allocation = map GPU_ID gs \<and>
             Alloc_NodeID allocation = Node_ID node \<and>
             gpus st' = map (\<lambda>g. if g \<in> set gs
                                    then mark_allocated request (generateAllocationID now) g else g) (gpus st) \<and>
             nodes st' = save_row Node_ID
               (node\<lparr>Node_AvailableGPUs := Node_AvailableGPUs node - of_nat (length gs),
                     Node_AvailableCPUCores := Node_AvailableCPUCores node - Req_CPUCores request,
                     Node_AvailableMemoryMB := Node_AvailableMemoryMB node - Req_MemoryMB request\<rparr>)
               (nodes st) \<and>
             jobs st' = jobs st \<and> tenants st' = tenants st))"
  using run node_writes(2)
proof (induction ns)
  case Nil
  then show ?case by auto
next
  case (Cons node rest)
  from Cons.prems(2) have keys: "\<forall>node\<in>set rest. Node_ID node \<noteq> []" and key: "Node_ID node \<noteq> []"
    by simp_all
  have skip: ?case if "gangSchedule st request rest now = ((res, e), st')"
    using Cons.IH [OF that keys] by auto
  show ?case
  proof (cases "Req_GPUCount request \<le>s Node_AvailableGPUs node")
    case False
    with Cons.prems(1) show ?thesis by (intro skip) simp
  next
    case True
    show ?thesis
    proof (cases "ListGPUsByNode st (Node_ID node)")
      case (Inl err)
      with Cons.prems(1) True show ?thesis by (intro skip) simp
    next
      case (Inr listed)
      then have listed: "listed = filter (\<lambda>g. GPU_NodeID g = Node_ID node) (gpus st)"
        by (auto simp: ListGPUsByNode_def split: if_splits)
      let ?gs = "gang_collect request now listed []"
      show ?thesis
      proof (cases "int (length ?gs) = sint (Req_GPUCount request)")
        case False
        with Cons.prems(1) True Inr show ?thesis by (intro skip) (simp add: Let_def)
      next
        case len: True
        with Cons.prems(1) True Inr
        have create: "createAllocation st request node ?gs now = ((res, e), st')"
          by (simp add: Let_def)
        from pk have "distinct (gpus st)" by (simp add: distinct_map)
        then have "distinct ([] @ listed)" by (simp add: listed)
        from gang_collect_sound [OF this]
        have dist: "distinct ?gs" and sub: "set ?gs \<subseteq> set listed" by simp_all
        from sub have on_node: "\<forall>g\<in>set ?gs. g \<in> set (gpus st) \<and> GPU_NodeID g = Node_ID node"
          by (auto simp: listed)
        then have in_store: "set ?gs \<subseteq> set (gpus st)" by blast
        have "set listed \<subseteq> set (gpus st)" by (auto simp: listed)
        then have avail: "\<forall>g\<in>set ?gs. g \<in> set (gpus st) \<and> IsAvailable g now"
          by (intro gang_collect_available) simp_all
        show ?thesis
        proof (cases e)
          case (Some err)
          with create have "err = Wrapped ''failed to create allocation'' ErrDatabase \<and> st' = st"
            by (intro createAllocation_error) simp
          with Some show ?thesis by simp
        next
          case None
          with create have c: "createAllocation st request node ?gs now = ((res, None), st')"
            by simp
          from gpu_writes in_store
          have writes: "\<forall>g\<in>set ?gs. \<not> broken st OpUpdateGPU (GPU_ID g) \<and> GPU_ID g \<noteq> []"
            by force
          from node_writes(1) have node_write: "\<not> broken st OpUpdateNode (Node_ID node)"
            by simp
          from createAllocation_commit [OF c pk in_store writes node_write key]
          obtain allocation where
            "allocations st' = allocations st @ [allocation] \<and>
             Alloc_ID allocation = generateAllocationID now \<and>
             Alloc_State allocation = AllocationActive \<and>
             Alloc_GPUIDs allocation = map GPU_ID ?gs \<and>
             Alloc_NodeID allocation = Node_ID node \<and>
             gpus st' = map (\<lambda>g. if g \<in> set ?gs
                                    then mark_allocated request (generateAllocationID now) g else g) (gpus st) \<and>
             nodes st' = save_row Node_ID
               (node\<lparr>Node_AvailableGPUs := Node_AvailableGPUs node - of_nat (length ?gs),
                     Node_AvailableCPUCores := Node_AvailableCPUCores node - Req_CPUCores request,
                     Node_AvailableMemoryMB := Node_AvailableMemoryMB node - Req_MemoryMB request\<rparr>)
               (nodes st) \<and>
             jobs st' = jobs st \<and> tenants st' = tenants st"
            by blast
          moreover have "node \<in> set (node # rest)" by simp
          moreover have "\<forall>g\<in>set ?gs. g \<in> set (gpus st) \<and> GPU_NodeID g = Node_ID node \<and> IsAvailable g now"
            using on_node avail by blast
          ultimately show ?thesis
            using None len dist by blast
        qed
      qed
    qed
  qed
qed

subsection \<open>The priority queue\<close>

text \<open>
  PriorityQueue.Less is a strict weak order: the lexicographic order on the computed
  priority, descending, and the enqueue instant, ascending.
\<close>

lemma item_less_iff:
  "item_less a b \<longleftrightarrow>
     computed_priority b < computed_priority a \<or>
     (computed_priority a = computed_priority b \<and> QI_EnqueuedAt a < QI_EnqueuedAt b)"
  by (auto simp: item_less_def computed_priority_def Let_def word_sless_alt dest: signed_word_eqI)

lemma item_less_irrefl: "\<not> item_less a a"
  by (simp add: item_less_iff)

lemma item_less_asym: "item_less a b \<Longrightarrow> \<not> item_less b a"
  unfolding item_less_iff by linarith

lemma item_less_trans: "item_less a b \<Longrightarrow> item_less b c \<Longrightarrow> item_less a c"
  unfolding item_less_iff by linarith

lemma item_not_less_trans: "\<not> item_less b a \<Longrightarrow> \<not> item_less c b \<Longrightarrow> \<not> item_less c a"
  unfolding item_less_iff by linarith

lemma item_less_not_less: "item_less a b \<Longrightarrow> \<not> item_less c b \<Longrightarrow> \<not> item_less c a"
  unfolding item_less_iff by linarith

lemma Swap_length: "length (Swap h i j) = length h"
  by (simp add: Swap_def)

lemma Swap_nth:
  "i < length h \<Longrightarrow> j < length h \<Longrightarrow>
     Swap h i j ! k = (if k = j then h ! i else if k = i then h ! j else h ! k)"
  by (simp add: Swap_def nth_list_update)

lemma Swap_mset: "i < length h \<Longrightarrow> j < length h \<Longrightarrow> mset (Swap h i j) = mset h"
  by (simp add: Swap_def mset_swap)


text \<open>
  The heap of container/heap: \<open>down\<close> and \<open>up\<close> permute the slice and restore the heap
  order when it fails at one position only; the root of a heap is before no other entry.
\<close>

lemma child_iff: "0 < (c::nat) \<Longrightarrow> (c - 1) div 2 = i \<longleftrightarrow> c = 2 * i + 1 \<or> c = 2 * i + 2"
  by presburger

lemma down_stop:
  "n \<le> 2 * i + 1 \<Longrightarrow> down h i n = h"
  by (subst down.simps) simp

lemma down_unfold:
  assumes "2 * i + 1 < n"
    and "j = (if 2 * i + 2 < n \<and> Less h (2 * i + 2) (2 * i + 1) then 2 * i + 2 else 2 * i + 1)"
  shows "down h i n = (if \<not> Less h j i then h else down (Swap h i j) j n)"
  using assms by (subst down.simps) (simp add: Let_def)

lemma down_props:
  "n \<le> length h \<Longrightarrow>
     length (down h i n) = length h \<and> mset (down h i n) = mset h \<and>
     (\<forall>k. n \<le> k \<longrightarrow> down h i n ! k = h ! k)"
proof (induction h i n rule: down.induct)
  case (1 h i n)
  show ?case
  proof (cases "2 * i + 1 < n")
    case False
    then show ?thesis by (simp add: down_stop)
  next
    case True
    define j where "j = (if 2 * i + 2 < n \<and> Less h (2 * i + 2) (2 * i + 1) then 2 * i + 2 else 2 * i + 1)"
    have j: "j < n" "i < j" using True by (auto simp: j_def)
    show ?thesis
    proof (cases "Less h j i")
      case False
      then show ?thesis by (simp add: down_unfold [OF True j_def])
    next
      case swap: True
      have eq: "down h i n = down (Swap h i j) j n"
        using swap by (simp add: down_unfold [OF True j_def])
      have "length (down (Swap h i j) j n) = length (Swap h i j) \<and>
            mset (down (Swap h i j) j n) = mset (Swap h i j) \<and>
            (\<forall>k. n \<le> k \<longrightarrow> down (Swap h i j) j n ! k = Swap h i j ! k)"
        using True swap "1.prems"
        by (intro "1.IH" [of "2 * i + 1" j]) (simp_all add: j_def Swap_length)
      moreover have "i < length h" "j < length h" using j "1.prems" by simp_all
      ultimately show ?thesis
        unfolding eq using j by (simp add: Swap_length Swap_mset Swap_nth)
    qed
  qed
qed

lemma down_heap_from:
  "heap_from_except h n k i \<Longrightarrow> n \<le> length h \<Longrightarrow> heap_from (down h i n) n k"
proof (induction h i n rule: down.induct)
  case (1 h i n)
  note inv = "1.prems"(1) [unfolded heap_from_except_def, rule_format]
  show ?case
  proof (cases "2 * i + 1 < n")
    case False
    have "\<not> item_less (h ! c) (h ! ((c - 1) div 2))"
      if c: "0 < c" "c < n" "k \<le> (c - 1) div 2" for c
    proof -
      from c False child_iff [of c i] have "(c - 1) div 2 \<noteq> i" by linarith
      with inv [of c] c show ?thesis by simp
    qed
    with False show ?thesis by (simp add: down_stop heap_from_def)
  next
    case True
    define j where "j = (if 2 * i + 2 < n \<and> Less h (2 * i + 2) (2 * i + 1) then 2 * i + 2 else 2 * i + 1)"
    have j: "j < n" "i < j" "(j - 1) div 2 = i" "0 < j"
      using True by (auto simp: j_def)
    have bounds: "i < length h" "j < length h" using j "1.prems"(2) by simp_all
    text \<open>The child not chosen is not before the chosen one.\<close>
    have sibling: "\<not> item_less (h ! c) (h ! j)" if c: "0 < c" "c < n" "(c - 1) div 2 = i" for c
    proof (cases "c = j")
      case True
      then show ?thesis by (simp add: item_less_irrefl)
    next
      case False
      from c child_iff [of c i] have cc: "c = 2 * i + 1 \<or> c = 2 * i + 2" by blast
      show ?thesis
      proof (cases "2 * i + 2 < n \<and> Less h (2 * i + 2) (2 * i + 1)")
        case True
        then have "j = 2 * i + 2" by (simp add: j_def)
        with cc False have "c = 2 * i + 1" by simp
        with True \<open>j = 2 * i + 2\<close> show ?thesis
          by (auto simp: Less_def dest: item_less_asym)
      next
        case neg: False
        then have "j = 2 * i + 1" by (simp add: j_def)
        with cc False have "c = 2 * i + 2" by simp
        with neg c \<open>j = 2 * i + 1\<close> show ?thesis
          by (simp add: Less_def)
      qed
    qed
    show ?thesis
    proof (cases "Less h j i")
      case False
      then have ji: "\<not> item_less (h ! j) (h ! i)" by (simp add: Less_def)
      have "\<not> item_less (h ! c) (h ! ((c - 1) div 2))"
        if c: "0 < c" "c < n" "k \<le> (c - 1) div 2" for c
      proof (cases "(c - 1) div 2 = i")
        case False
        with inv [of c] c show ?thesis by simp
      next
        case True
        from item_not_less_trans [OF ji sibling [OF c(1,2) True]] True show ?thesis by simp
      qed
      then have "heap_from h n k" by (simp add: heap_from_def)
      with False show ?thesis by (simp add: down_unfold [OF True j_def])
    next
      case swap: True
      then have ji: "item_less (h ! j) (h ! i)" by (simp add: Less_def)
      have eq: "down h i n = down (Swap h i j) j n"
        using swap by (simp add: down_unfold [OF True j_def])
      let ?h = "Swap h i j"
      have nth: "?h ! k = (if k = j then h ! i else if k = i then h ! j else h ! k)" for k
        using bounds by (rule Swap_nth)
      have "heap_from_except ?h n k j"
        unfolding heap_from_except_def
      proof (intro allI impI conjI)
        fix c assume c: "0 < c \<and> c < n \<and> k \<le> (c - 1) div 2"
        then have c0: "0 < c" and cn: "c < n" and ck: "k \<le> (c - 1) div 2" by simp_all
        let ?p = "(c - 1) div 2"
        have pc: "?p < c" using c0 by presburger
        {
          assume pj: "?p \<noteq> j"
          show "\<not> item_less (?h ! c) (?h ! ?p)"
          proof (cases "c = j")
            case True
            with j ji show ?thesis by (simp add: nth item_less_asym)
          next
            case cj: False
            show ?thesis
            proof (cases "c = i")
              case True
              then have i0: "0 < i" and ki: "k \<le> (i - 1) div 2" using c0 ck by simp_all
              then have "k \<le> (j - 1) div 2" using j by simp
              with inv [of j] j i0 ki have "\<not> item_less (h ! j) (h ! ((i - 1) div 2))" by simp
              moreover have "?p \<noteq> i" "?p \<noteq> j" using pc True j by simp_all
              ultimately show ?thesis using True cj by (simp add: nth)
            next
              case ci: False
              show ?thesis
              proof (cases "?p = i")
                case True
                from sibling [OF c0 cn True] True cj ci show ?thesis by (simp add: nth)
              next
                case False
                with inv [of c] c0 cn ck have "\<not> item_less (h ! c) (h ! ?p)" by simp
                with False pj cj ci show ?thesis by (simp add: nth)
              qed
            qed
          qed
        }
        {
          assume "?p = j \<and> 0 < j \<and> k \<le> (j - 1) div 2"
          then have pj: "?p = j" by simp
          then have "c \<noteq> i" "c \<noteq> j" using pc j by auto
          moreover from inv [of c] c0 cn ck pj j have "\<not> item_less (h ! c) (h ! j)" by simp
          ultimately show "\<not> item_less (?h ! c) (?h ! ((j - 1) div 2))"
            using j by (simp add: nth)
        }
      qed
      moreover have "n \<le> length ?h" using "1.prems"(2) by (simp add: Swap_length)
      ultimately have "heap_from (down ?h j n) n k"
        using True swap by (intro "1.IH" [of "2 * i + 1" j]) (simp_all add: j_def)
      then show ?thesis by (simp add: eq)
    qed
  qed
qed

lemma heap_from_0: "heap_from h n 0 = heap_ok h n"
  by (simp add: heap_from_def heap_ok_def)

lemma heap_from_except_0: "heap_from_except h n 0 i = heap_except_down h n i"
  by (simp add: heap_from_except_def heap_except_down_def)

lemma down_heap:
  "heap_except_down h n i \<Longrightarrow> n \<le> length h \<Longrightarrow> heap_ok (down h i n) n"
  using down_heap_from [of h n 0 i] by (simp add: heap_from_0 heap_from_except_0)


lemma up_unfold:
  assumes "i = (j - 1) div 2"
  shows "up h j = (if i = j \<or> \<not> Less h j i then h else up (Swap h i j) i)"
  using assms by (subst up.simps) (simp add: Let_def)

lemma up_props:
  "j < length h \<Longrightarrow> length (up h j) = length h \<and> mset (up h j) = mset h"
proof (induction h j rule: up.induct)
  case (1 h j)
  define i where "i = (j - 1) div 2"
  have ij: "i \<le> j" unfolding i_def by presburger
  show ?case
  proof (cases "i = j \<or> \<not> Less h j i")
    case True
    then show ?thesis by (simp add: up_unfold [OF i_def])
  next
    case False
    then have eq: "up h j = up (Swap h i j) i" by (simp add: up_unfold [OF i_def])
    have b: "i < length h" "j < length h" using ij "1.prems" by simp_all
    have "length (up (Swap h i j) i) = length (Swap h i j) \<and> mset (up (Swap h i j) i) = mset (Swap h i j)"
      using False b by (intro "1.IH" [of i]) (simp_all add: i_def Swap_length)
    then show ?thesis unfolding eq using b by (simp add: Swap_length Swap_mset)
  qed
qed

lemma up_heap:
  "heap_except_up h n j \<Longrightarrow> j < n \<Longrightarrow> n \<le> length h \<Longrightarrow> heap_ok (up h j) n"
proof (induction h j rule: up.induct)
  case (1 h j)
  note inv = "1.prems"(1) [unfolded heap_except_up_def, rule_format]
  define i where "i = (j - 1) div 2"
  have ij: "i \<le> j" unfolding i_def by presburger
  show ?case
  proof (cases "i = j \<or> \<not> Less h j i")
    case True
    have "\<not> item_less (h ! c) (h ! ((c - 1) div 2))" if c: "0 < c" "c < n" for c
    proof (cases "c = j")
      case False
      with inv [of c] c show ?thesis by simp
    next
      case cj: True
      with c have "i \<noteq> j" unfolding i_def by presburger
      with True have "\<not> item_less (h ! j) (h ! i)" by (simp add: Less_def)
      with cj show ?thesis by (simp add: i_def)
    qed
    then have "heap_ok h n" by (simp add: heap_ok_def)
    with True show ?thesis by (simp add: up_unfold [OF i_def])
  next
    case False
    then have neq: "i \<noteq> j" and ji: "item_less (h ! j) (h ! i)" by (simp_all add: Less_def)
    from neq ij have lt: "i < j" by simp
    then have j0: "0 < j" by simp
    have eq: "up h j = up (Swap h i j) i" using False by (simp add: up_unfold [OF i_def])
    have bounds: "i < length h" "j < length h" using lt "1.prems" by simp_all
    let ?h = "Swap h i j"
    have nth: "?h ! k = (if k = j then h ! i else if k = i then h ! j else h ! k)" for k
      using bounds by (rule Swap_nth)
    have "heap_except_up ?h n i"
      unfolding heap_except_up_def
    proof (intro allI impI conjI)
      fix c assume c: "0 < c \<and> c < n"
      then have c0: "0 < c" and cn: "c < n" by simp_all
      let ?p = "(c - 1) div 2"
      have pc: "?p < c" using c0 by presburger
      {
        assume ci: "c \<noteq> i"
        show "\<not> item_less (?h ! c) (?h ! ?p)"
        proof (cases "c = j")
          case True
          have "(j - Suc 0) div 2 = i" by (simp add: i_def)
          with True ji lt show ?thesis by (simp add: nth item_less_asym)
        next
          case cj: False
          from inv [of c] c0 cn cj have edge: "\<not> item_less (h ! c) (h ! ?p)" by simp
          show ?thesis
          proof (cases "?p = j")
            case True
            with inv [of c] c0 cn j0 have "\<not> item_less (h ! c) (h ! i)" by (simp add: i_def)
            with True cj ci show ?thesis by (simp add: nth)
          next
            case pj: False
            show ?thesis
            proof (cases "?p = i")
              case True
              with edge have "\<not> item_less (h ! c) (h ! i)" by simp
              from item_less_not_less [OF ji this] True cj ci pj show ?thesis by (simp add: nth)
            next
              case False
              with edge cj ci pj show ?thesis by (simp add: nth)
            qed
          qed
        qed
      }
      {
        assume "?p = i \<and> 0 < i"
        then have pi: "?p = i" and i0: "0 < i" by simp_all
        let ?g = "(i - 1) div 2"
        have gi: "?g < i" using i0 by presburger
        from inv [of i] i0 lt "1.prems"(2) have top: "\<not> item_less (h ! i) (h ! ?g)" by simp
        have g: "?h ! ?g = h ! ?g" using gi lt by (simp add: nth)
        show "\<not> item_less (?h ! c) (?h ! ?g)"
        proof (cases "c = j")
          case True
          with top g show ?thesis by (simp add: nth)
        next
          case False
          with inv [of c] c0 cn pi have "\<not> item_less (h ! c) (h ! i)" by simp
          from item_not_less_trans [OF top this] False pi pc g show ?thesis by (simp add: nth)
        qed
      }
    qed
    moreover have "i < n" using lt "1.prems"(2) by simp
    moreover have "n \<le> length ?h" using "1.prems"(3) by (simp add: Swap_length)
    ultimately have "heap_ok (up ?h i) n"
      using False by (intro "1.IH" [of i]) (simp_all add: i_def)
    then show ?thesis by (simp add: eq)
  qed
qed

lemma root_least:
  "heap_ok h n \<Longrightarrow> k < n \<Longrightarrow> \<not> item_less (h ! k) (h ! 0)"
proof (induction k rule: less_induct)
  case (less k)
  show ?case
  proof (cases "k = 0")
    case True
    then show ?thesis by (simp add: item_less_irrefl)
  next
    case False
    let ?p = "(k - 1) div 2"
    have pk: "?p < k" using False by presburger
    from less.prems False have edge: "\<not> item_less (h ! k) (h ! ?p)"
      by (simp add: heap_ok_def)
    from less.IH [OF pk less.prems(1)] pk less.prems(2)
    have "\<not> item_less (h ! ?p) (h ! 0)" by simp
    from item_not_less_trans [OF this edge] show ?thesis .
  qed
qed

lemma heap_Push_props:
  assumes "heap_ok h (length h)"
  shows "heap_ok (heap_Push h x) (Suc (length h))"
    and "length (heap_Push h x) = Suc (length h)"
    and "mset (heap_Push h x) = add_mset x (mset h)"
proof -
  let ?n = "length h"
  have "heap_except_up (h @ [x]) (Suc ?n) ?n"
    unfolding heap_except_up_def
  proof (intro allI impI conjI)
    fix c assume c: "0 < c \<and> c < Suc ?n"
    let ?p = "(c - 1) div 2"
    have pc: "?p < c" using c by presburger
    {
      assume "c \<noteq> ?n"
      with c have cn: "c < ?n" by simp
      with assms c have "\<not> item_less (h ! c) (h ! ?p)" by (simp add: heap_ok_def)
      with cn pc show "\<not> item_less ((h @ [x]) ! c) ((h @ [x]) ! ?p)" by (simp add: nth_append)
    }
    {
      assume "?p = ?n \<and> 0 < ?n"
      with pc c have False by simp
      then show "\<not> item_less ((h @ [x]) ! c) ((h @ [x]) ! ((?n - 1) div 2))" ..
    }
  qed
  then have "heap_ok (up (h @ [x]) ?n) (Suc ?n)"
    by (rule up_heap) simp_all
  then show "heap_ok (heap_Push h x) (Suc (length h))" by (simp add: heap_Push_def)
  from up_props [of ?n "h @ [x]"]
  show "length (heap_Push h x) = Suc (length h)" "mset (heap_Push h x) = add_mset x (mset h)"
    by (simp_all add: heap_Push_def)
qed

lemma heap_Pop_props:
  assumes "h \<noteq> []" "heap_ok h (length h)"
  shows "fst (heap_Pop h) = h ! 0"
    and "heap_ok (snd (heap_Pop h)) (length h - 1)"
    and "length (snd (heap_Pop h)) = length h - 1"
    and "add_mset (h ! 0) (mset (snd (heap_Pop h))) = mset h"
proof -
  define n where "n = length h - 1"
  from assms(1) have len: "length h = Suc n" by (simp add: n_def)
  let ?s = "Swap h 0 n"
  let ?d = "down ?s 0 n"
  have b: "0 < length h" "n < length h" using len by simp_all
  have nth: "?s ! k = (if k = n then h ! 0 else if k = 0 then h ! n else h ! k)" for k
    using b by (rule Swap_nth)
  have props: "length ?d = length ?s \<and> mset ?d = mset ?s \<and> (\<forall>k. n \<le> k \<longrightarrow> ?d ! k = ?s ! k)"
    by (rule down_props) (simp add: Swap_length len)
  then have dlen: "length ?d = Suc n" and dmset: "mset ?d = mset h" and last: "?d ! n = h ! 0"
    using b by (simp_all add: Swap_length Swap_mset len nth)
  have pop: "heap_Pop h = (?d ! n, take n ?d)"
    by (simp add: heap_Pop_def n_def Let_def)
  show "fst (heap_Pop h) = h ! 0" by (simp add: pop last)
  show "length (snd (heap_Pop h)) = length h - 1" by (simp add: pop dlen len)
  have "heap_except_down ?s n 0"
    unfolding heap_except_down_def
  proof (intro allI impI conjI)
    fix c assume c: "0 < c \<and> c < n"
    let ?p = "(c - 1) div 2"
    have pc: "?p < c" using c by presburger
    {
      assume p0: "?p \<noteq> 0"
      from assms(2) c len have "\<not> item_less (h ! c) (h ! ?p)" by (simp add: heap_ok_def)
      with c pc p0 show "\<not> item_less (?s ! c) (?s ! ?p)" by (simp add: nth)
    }
    {
      assume "?p = 0 \<and> (0::nat) < 0"
      then show "\<not> item_less (?s ! c) (?s ! ((0 - 1) div 2))" by simp
    }
  qed
  then have "heap_ok ?d n" by (rule down_heap) (simp add: Swap_length len)
  then have "heap_ok (take n ?d) n"
    unfolding heap_ok_def
  proof (intro allI impI)
    fix c assume h: "\<forall>c. 0 < c \<and> c < n \<longrightarrow> \<not> item_less (?d ! c) (?d ! ((c - 1) div 2))"
      and c: "0 < c \<and> c < n"
    have "(c - 1) div 2 < n" using c by presburger
    with h c show "\<not> item_less (take n ?d ! c) (take n ?d ! ((c - 1) div 2))" by simp
  qed
  then show "heap_ok (snd (heap_Pop h)) (length h - 1)" by (simp add: pop len)
  have "?d = take n ?d @ [?d ! n]"
    using dlen by (simp add: take_Suc_conv_app_nth [symmetric])
  then have "mset ?d = add_mset (?d ! n) (mset (take n ?d))"
    by (metis mset.simps(1) mset.simps(2) mset_append add_mset_add_single)
  then show "add_mset (h ! 0) (mset (snd (heap_Pop h))) = mset h"
    by (simp add: pop last dmset)
qed


text \<open>heap.Init: sifting down from the last parent to the root builds the heap order.\<close>

lemma heapify_fold:
  "heap_from h n m \<Longrightarrow> n = length h \<Longrightarrow>
     heap_from (fold (\<lambda>i h'. down h' i n) (rev [0 ..< m]) h) n 0 \<and>
     length (fold (\<lambda>i h'. down h' i n) (rev [0 ..< m]) h) = n \<and>
     mset (fold (\<lambda>i h'. down h' i n) (rev [0 ..< m]) h) = mset h"
proof (induction m arbitrary: h)
  case 0
  then show ?case by simp
next
  case (Suc m)
  let ?h = "down h m n"
  have len: "n \<le> length h" using Suc.prems(2) by simp
  have "heap_from_except h n m m"
    unfolding heap_from_except_def
  proof (intro allI impI conjI)
    fix c assume c: "0 < c \<and> c < n \<and> m \<le> (c - 1) div 2"
    {
      assume "(c - 1) div 2 \<noteq> m"
      with c have "Suc m \<le> (c - 1) div 2" by simp
      with Suc.prems(1) c show "\<not> item_less (h ! c) (h ! ((c - 1) div 2))"
        by (simp add: heap_from_def)
    }
    {
      assume a: "(c - 1) div 2 = m \<and> 0 < m \<and> m \<le> (m - 1) div 2"
      then have False by presburger
      then show "\<not> item_less (h ! c) (h ! ((m - 1) div 2))" ..
    }
  qed
  from down_heap_from [OF this len] have ok: "heap_from ?h n m" .
  from down_props [OF len, of m] Suc.prems(2)
  have props: "n = length ?h" "mset ?h = mset h" by simp_all
  from Suc.IH [OF ok props(1)] props(2) show ?case by simp
qed

lemma heap_Init_props:
  "heap_ok (heap_Init h) (length h) \<and> length (heap_Init h) = length h \<and>
   mset (heap_Init h) = mset h"
proof -
  have "heap_from h (length h) (length h div 2)"
    unfolding heap_from_def
  proof (intro allI impI)
    fix c assume "0 < c \<and> c < length h \<and> length h div 2 \<le> (c - 1) div 2"
    then have False by presburger
    then show "\<not> item_less (h ! c) (h ! ((c - 1) div 2))" ..
  qed
  from heapify_fold [OF this refl] show ?thesis
    by (simp add: heap_Init_def heap_from_0)
qed


text \<open>
  Enqueue, Dequeue and ApplyAging keep the heap order, and an entry's priority is always
  its job's.
\<close>

lemma set_heap_Push:
  assumes "heap_ok h (length h)"
  shows "set (heap_Push h x) = insert x (set h)"
  using heap_Push_props(3) [OF assms, of x] by (metis set_mset_add_mset_insert set_mset_mset)

lemma set_heap_Pop:
  assumes "h \<noteq> []" "heap_ok h (length h)"
  shows "set (snd (heap_Pop h)) \<subseteq> set h"
proof -
  have "set_mset (mset (snd (heap_Pop h))) \<subseteq> set_mset (add_mset (h ! 0) (mset (snd (heap_Pop h))))"
    by auto
  then show ?thesis unfolding heap_Pop_props(4) [OF assms] by simp
qed

lemma Dequeue_items:
  "items q \<noteq> [] \<Longrightarrow> items (snd (Dequeue q)) = snd (heap_Pop (items q))"
  by (simp add: Dequeue_def split: prod.splits)

lemma Dequeue_empty: "items q = [] \<Longrightarrow> Dequeue q = (None, q)"
  by (simp add: Dequeue_def)

lemma set_heap_Init: "set (heap_Init h) = set h"
  using heap_Init_props [of h] by (metis set_mset_mset)

lemma reachable_inv: "reachable q \<Longrightarrow> queue_inv q"
proof (induction rule: reachable.induct)
  case (reach_New m)
  show ?case by (simp add: queue_inv_def NewQueue_def heap_Init_def heap_ok_def)
next
  case (reach_Enqueue q job now q')
  let ?item = "\<lparr>QI_Job = job, QI_Priority = Job_Priority job, QI_EnqueuedAt = now, QI_AgingBoost = 0\<rparr>"
  from reach_Enqueue.hyps(2) have q': "items q' = heap_Push (items q) ?item"
    by (auto simp: Enqueue_def Let_def split: if_splits)
  from reach_Enqueue.IH have ok: "heap_ok (items q) (length (items q))"
    and entries: "\<forall>a\<in>set (items q). QI_Priority a = Job_Priority (QI_Job a)"
    by (simp_all add: queue_inv_def)
  from heap_Push_props(1,2) [OF ok, of ?item] have "heap_ok (items q') (length (items q'))"
    by (simp add: q')
  moreover have "\<forall>a\<in>set (items q'). QI_Priority a = Job_Priority (QI_Job a)"
    using entries by (simp add: q' set_heap_Push [OF ok])
  ultimately show ?case by (simp add: queue_inv_def)
next
  case (reach_Dequeue q)
  show ?case
  proof (cases "items q = []")
    case True
    with reach_Dequeue.IH show ?thesis by (simp add: Dequeue_empty)
  next
    case False
    from reach_Dequeue.IH have ok: "heap_ok (items q) (length (items q))"
      and entries: "\<forall>a\<in>set (items q). QI_Priority a = Job_Priority (QI_Job a)"
      by (simp_all add: queue_inv_def)
    from heap_Pop_props(2,3) [OF False ok]
    have "heap_ok (items (snd (Dequeue q))) (length (items (snd (Dequeue q))))"
      by (simp add: Dequeue_items [OF False])
    moreover have "\<forall>a\<in>set (items (snd (Dequeue q))). QI_Priority a = Job_Priority (QI_Job a)"
      using entries set_heap_Pop [OF False ok] by (auto simp: Dequeue_items [OF False])
    ultimately show ?thesis by (simp add: queue_inv_def)
  qed
next
  case (reach_Aging q agingFactor ageThreshold now)
  let ?aged = "map (\<lambda>item. if ageThreshold < Sub now (QI_EnqueuedAt item)
                        then item\<lparr>QI_AgingBoost := QI_AgingBoost item + agingFactor\<rparr>
                        else item) (items q)"
  have it: "items (ApplyAging q agingFactor ageThreshold now) = heap_Init ?aged"
    by (simp add: ApplyAging_def)
  from reach_Aging.IH have entries: "\<forall>a\<in>set (items q). QI_Priority a = Job_Priority (QI_Job a)"
    by (simp add: queue_inv_def)
  from heap_Init_props [of ?aged]
  have "heap_ok (heap_Init ?aged) (length (heap_Init ?aged))" by simp
  moreover have "\<forall>a\<in>set (heap_Init ?aged). QI_Priority a = Job_Priority (QI_Job a)"
    using entries by (auto simp: set_heap_Init)
  ultimately show ?case by (simp add: queue_inv_def it)
qed

lemma removed_Suc:
  "items q \<noteq> [] \<Longrightarrow> removed (Suc n) q = items q ! 0 # removed n (snd (Dequeue q))"
  if "heap_ok (items q) (length (items q))"
  using heap_Pop_props(1) [OF _ that] by simp

lemma removed_ordered:
  assumes "heap_ok (items q) (length (items q))"
  shows "sorted_wrt (\<lambda>a b. \<not> item_less b a) (removed n q) \<and> set (removed n q) \<subseteq> set (items q)"
  using assms
proof (induction n arbitrary: q)
  case 0
  show ?case by simp
next
  case (Suc n)
  show ?case
  proof (cases "items q = []")
    case True
    then show ?thesis by simp
  next
    case False
    let ?q = "snd (Dequeue q)"
    from heap_Pop_props(2,3) [OF False Suc.prems]
    have ok': "heap_ok (items ?q) (length (items ?q))"
      by (simp add: Dequeue_items [OF False])
    from Suc.IH [OF ok'] have sorted: "sorted_wrt (\<lambda>a b. \<not> item_less b a) (removed n ?q)"
      and sub: "set (removed n ?q) \<subseteq> set (items q)"
      using set_heap_Pop [OF False Suc.prems] by (auto simp: Dequeue_items [OF False])
    have least: "\<not> item_less y (items q ! 0)" if "y \<in> set (items q)" for y
    proof -
      from that obtain k where "k < length (items q)" "y = items q ! k"
        by (auto simp: in_set_conv_nth)
      with root_least [OF Suc.prems, of k] show ?thesis by simp
    qed
    have root: "items q ! 0 \<in> set (items q)" using False by simp
    show ?thesis
      unfolding removed_Suc [OF Suc.prems False]
      using sorted sub least root by auto
  qed
qed

lemma removed_all:
  assumes "heap_ok (items q) (length (items q))" "n = length (items q)"
  shows "mset (removed n q) = mset (items q)"
  using assms
proof (induction n arbitrary: q)
  case 0
  then show ?case by simp
next
  case (Suc n)
  then have ne: "items q \<noteq> []" by auto
  let ?q = "snd (Dequeue q)"
  from heap_Pop_props(2,3) [OF ne Suc.prems(1)] Suc.prems(2)
  have ok': "heap_ok (items ?q) (length (items ?q))" and len: "n = length (items ?q)"
    by (simp_all add: Dequeue_items [OF ne])
  from Suc.IH [OF ok' len] have "mset (removed n ?q) = mset (snd (heap_Pop (items q)))"
    by (simp add: Dequeue_items [OF ne])
  with heap_Pop_props(4) [OF ne Suc.prems(1)] show ?case
    unfolding removed_Suc [OF Suc.prems(1) ne] by simp
qed

lemma Dequeue_n_removed: "Dequeue_n n q = map QI_Job (removed n q)"
proof (induction n arbitrary: q)
  case 0
  show ?case by simp
next
  case (Suc n)
  show ?case
  proof (cases "items q = []")
    case True
    then show ?thesis by (simp add: Dequeue_def)
  next
    case False
    then show ?thesis
      by (simp add: Dequeue_def Suc.IH split: prod.splits)
  qed
qed

lemma strictly_descending:
  "sorted_wrt (\<lambda>a b. f b \<le> f a \<and> P a b) xs \<Longrightarrow> distinct (map f xs) \<Longrightarrow>
     sorted_wrt (\<lambda>a b. (f b :: int) < f a) xs"
proof (induction xs)
  case Nil
  show ?case by simp
next
  case (Cons a xs)
  have "f x < f a" if "x \<in> set xs" for x
  proof -
    from Cons.prems(1) that have "f x \<le> f a" by simp
    moreover from Cons.prems(2) that have "f a \<noteq> f x" by auto
    ultimately show ?thesis by simp
  qed
  with Cons show ?case by simp
qed

text \<open>
  Priority order. For every queue built by enqueueing and dequeueing jobs and by aging,
  \<open>n\<close> successive Dequeue calls return the jobs of the entries \<open>removed n q\<close>, and these
  come in the order of Less: in non-increasing computed priority, an entry of equal computed
  priority never before one enqueued strictly earlier. Dequeueing as many times as the queue
  is long returns every entry.
\<close>

lemma Dequeue_computed_order:
  assumes "reachable q"
  shows "Dequeue_n n q = map QI_Job (removed n q) \<and>
         sorted_wrt (\<lambda>a b. computed_priority b \<le> computed_priority a \<and>
                            (computed_priority a = computed_priority b \<longrightarrow>
                               QI_EnqueuedAt a \<le> QI_EnqueuedAt b)) (removed n q) \<and>
         set (removed n q) \<subseteq> set (items q) \<and>
         mset (removed (length (items q)) q) = mset (items q)"
proof -
  from reachable_inv [OF assms] have ok: "heap_ok (items q) (length (items q))"
    by (simp add: queue_inv_def)
  from removed_ordered [OF ok, of n]
  have sorted: "sorted_wrt (\<lambda>a b. \<not> item_less b a) (removed n q)"
    and sub: "set (removed n q) \<subseteq> set (items q)" by simp_all
  have "sorted_wrt (\<lambda>a b. computed_priority b \<le> computed_priority a \<and>
                            (computed_priority a = computed_priority b \<longrightarrow>
                               QI_EnqueuedAt a \<le> QI_EnqueuedAt b)) (removed n q)"
  proof (rule sorted_wrt_mono_rel [OF _ sorted])
    fix a b assume "\<not> item_less b a"
    then show "computed_priority b \<le> computed_priority a \<and>
          (computed_priority a = computed_priority b \<longrightarrow> QI_EnqueuedAt a \<le> QI_EnqueuedAt b)"
      unfolding item_less_iff by auto
  qed
  with Dequeue_n_removed [of n q] sub removed_all [OF ok refl] show ?thesis
    by blast
qed

text \<open>
  Where no entry's sum of priority and aging boost leaves the int64 range, the computed
  priority is the effective priority: the jobs come in non-increasing effective priority,
  first in first out among equal ones, and in strictly descending effective priority when
  the effective priorities are distinct.
\<close>

lemma Dequeue_effective_order:
  assumes "reachable q"
    and "\<forall>a\<in>set (items q). fits (QI_Priority a) (QI_AgingBoost a)"
  shows "sorted_wrt (\<lambda>a b. effective_priority b \<le> effective_priority a \<and>
                            (effective_priority a = effective_priority b \<longrightarrow>
                               QI_EnqueuedAt a \<le> QI_EnqueuedAt b)) (removed n q) \<and>
         (distinct (map effective_priority (removed n q)) \<longrightarrow>
            sorted_wrt (\<lambda>a b. effective_priority b < effective_priority a) (removed n q))"
proof -
  have eff: "effective_priority a = computed_priority a" if "a \<in> set (items q)" for a
    using assms(2) that
    by (simp add: effective_priority_def computed_priority_def fits_def sint_add_no_overflow)
  from Dequeue_computed_order [OF assms(1), of n]
  have sorted: "sorted_wrt (\<lambda>a b. computed_priority b \<le> computed_priority a \<and>
                            (computed_priority a = computed_priority b \<longrightarrow>
                               QI_EnqueuedAt a \<le> QI_EnqueuedAt b)) (removed n q)"
    and sub: "set (removed n q) \<subseteq> set (items q)" by simp_all
  have order: "sorted_wrt (\<lambda>a b. effective_priority b \<le> effective_priority a \<and>
                            (effective_priority a = effective_priority b \<longrightarrow>
                               QI_EnqueuedAt a \<le> QI_EnqueuedAt b)) (removed n q)"
  proof (rule sorted_wrt_mono_rel [OF _ sorted])
    fix a b assume a: "a \<in> set (removed n q)" and b: "b \<in> set (removed n q)"
      and le: "computed_priority b \<le> computed_priority a \<and>
               (computed_priority a = computed_priority b \<longrightarrow> QI_EnqueuedAt a \<le> QI_EnqueuedAt b)"
    from a b sub have ea: "effective_priority a = computed_priority a"
      and eb: "effective_priority b = computed_priority b"
      by (auto intro: eff)
    from le show "effective_priority b \<le> effective_priority a \<and>
          (effective_priority a = effective_priority b \<longrightarrow> QI_EnqueuedAt a \<le> QI_EnqueuedAt b)"
      unfolding ea eb .
  qed
  have "sorted_wrt (\<lambda>a b. effective_priority b < effective_priority a) (removed n q)"
    if "distinct (map effective_priority (removed n q))"
    using order that by (rule strictly_descending)
  with order show ?thesis by blast
qed

lemmas heap_defs = heap_Push_def heap_Pop_def up.simps down.simps Swap_def Less_def item_less_def

text \<open>
  Three jobs, and the same three after the one that waited longest was boosted past the
  others: each time the jobs leave in descending effective priority, first in first out
  among equals.
\<close>

lemma Dequeue_order_example:
  "reachable c2_queue \<and>
   Dequeue_n 3 c2_queue = [c2_high, c2_low, c2_low2] \<and>
   map effective_priority (removed 3 c2_queue) = [1000, 100, 100] \<and>
   map QI_EnqueuedAt (removed 3 c2_queue) = [2, 1, 3] \<and>
   reachable c2_boosted \<and>
   Dequeue_n 3 c2_boosted = [c2_low, c2_high, c2_low2] \<and>
   map effective_priority (removed 3 c2_boosted) = [1100, 1000, 100]"
proof -
  let ?l = "\<lparr>QI_Job = c2_low, QI_Priority = 100, QI_EnqueuedAt = 1, QI_AgingBoost = 0\<rparr>"
  let ?h = "\<lparr>QI_Job = c2_high, QI_Priority = 1000, QI_EnqueuedAt = 2, QI_AgingBoost = 0\<rparr>"
  let ?l2 = "\<lparr>QI_Job = c2_low2, QI_Priority = 100, QI_EnqueuedAt = 3, QI_AgingBoost = 0\<rparr>"
  let ?q1 = "\<lparr>items = [?l], jobMap = {''low''}, maxSize = 10\<rparr>"
  let ?q2 = "\<lparr>items = [?h, ?l], jobMap = {''low'', ''high''}, maxSize = 10\<rparr>"
  have e1: "Enqueue (NewQueue 10) c2_low 1 = Inr ?q1"
    by (simp add: Enqueue_def NewQueue_def heap_Init_def heap_defs c2_low_def ex_job_def Let_def)
  have e2: "Enqueue ?q1 c2_high 2 = Inr ?q2"
    by (auto simp: Enqueue_def heap_defs c2_low_def c2_high_def ex_job_def Let_def scmp)
  have e3: "Enqueue ?q2 c2_low2 3 = Inr c2_queue"
    by (auto simp: Enqueue_def heap_defs c2_queue_def c2_low_def c2_high_def c2_low2_def
        ex_job_def Let_def scmp)
  have reach: "reachable c2_queue"
    by (rule reach_Enqueue [OF reach_Enqueue [OF reach_Enqueue [OF reach_New e1] e2] e3])
  have reach': "reachable c2_boosted"
    unfolding c2_boosted_def using reach by (rule reach_Aging)
  have rem: "removed 3 c2_queue = [?h, ?l, ?l2]"
    by code_simp
  have rem': "removed 3 c2_boosted = [?l\<lparr>QI_AgingBoost := 1000\<rparr>, ?h, ?l2]"
    by code_simp
  from Dequeue_computed_order [OF reach, of 3]
  have d: "Dequeue_n 3 c2_queue = map QI_Job (removed 3 c2_queue)"
    by blast
  from Dequeue_computed_order [OF reach', of 3]
  have d': "Dequeue_n 3 c2_boosted = map QI_Job (removed 3 c2_boosted)"
    by blast
  from reach reach' show ?thesis
    unfolding d d' rem rem' by (simp add: effective_priority_def)
qed

text \<open>
  C2. The claim fails where the sum priority + aging boost wraps around. A job of priority
  9223372036854775800 and a job of priority 100 are enqueued and, having both waited longer
  than five minutes, aged by 10. Before the aging the job of higher priority is dequeued
  first. After it the effective priorities are 9223372036854775810 and 110, but Less
  computes the first sum as -9223372036854775806, and two successive Dequeue calls return
  the job of effective priority 110 before the one of effective priority
  9223372036854775810.
\<close>

theorem Dequeue_aged_overflow:
  "Enqueue (NewQueue 10) c2_huge 1 = Inr c2_first \<and>
   Enqueue c2_first c2_low 2 = Inr c2_both \<and>
   Dequeue_n 2 c2_both = [c2_huge, c2_low] \<and>
   c2_aged = ApplyAging c2_both 10 300000000000 400000000000 \<and>
   Dequeue_n 2 c2_aged = [c2_low, c2_huge] \<and>
   map effective_priority (removed 2 c2_aged) = [110, 9223372036854775810] \<and>
   map computed_priority (removed 2 c2_aged) = [110, - 9223372036854775806]"
proof -
  let ?hg = "\<lparr>QI_Job = c2_huge, QI_Priority = 9223372036854775800, QI_EnqueuedAt = 1,
              QI_AgingBoost = 0\<rparr>"
  let ?lw = "\<lparr>QI_Job = c2_low, QI_Priority = 100, QI_EnqueuedAt = 2, QI_AgingBoost = 0\<rparr>"
  have e1: "Enqueue (NewQueue 10) c2_huge 1 = Inr c2_first"
    by (simp add: Enqueue_def NewQueue_def heap_Init_def heap_defs c2_first_def c2_huge_def
        ex_job_def Let_def)
  have e2: "Enqueue c2_first c2_low 2 = Inr c2_both"
    by (auto simp: Enqueue_def heap_defs c2_first_def c2_both_def c2_huge_def c2_low_def
        ex_job_def Let_def scmp)
  have before: "removed 2 c2_both = [?hg, ?lw]"
    by code_simp
  have after: "removed 2 c2_aged = [?lw\<lparr>QI_AgingBoost := 10\<rparr>, ?hg\<lparr>QI_AgingBoost := 10\<rparr>]"
    by code_simp
  have eff: "effective_priority (?lw\<lparr>QI_AgingBoost := 10\<rparr>) = 110"
    "effective_priority (?hg\<lparr>QI_AgingBoost := 10\<rparr>) = 9223372036854775810"
    by (simp_all add: effective_priority_def)
  have comp: "computed_priority (?lw\<lparr>QI_AgingBoost := 10\<rparr>) = 110"
    "computed_priority (?hg\<lparr>QI_AgingBoost := 10\<rparr>) = - 9223372036854775806"
    by (simp_all add: computed_priority_def)
  show ?thesis
    unfolding Dequeue_n_removed before after
    using e1 e2 eff comp by (simp add: c2_aged_def)
qed

subsection \<open>Startup\<close>

text \<open>
  C8, as stated, fails on both counts. The pending jobs are enqueued in the order of the
  repository's listing, here the one submitted at 20 before the one submitted at 10, and
  with equal priorities they are dequeued in that order. With a queue of capacity 1 the
  second pending job is not in the queue at all.
\<close>

theorem loadPendingJobs_counterexample:
  "ListJobsByState c8_store JobStatePending = Inr [c8_late, c8_early] \<and>
   Job_SubmittedAt c8_early < Job_SubmittedAt c8_late \<and>
   map QI_EnqueuedAt (removed 2 (queue (snd (loadPendingJobs (NewScheduler c1_config c8_store) c8_clock))))
     = [100, 101] \<and>
   Dequeue_n 2 (queue (snd (loadPendingJobs (NewScheduler c1_config c8_store) c8_clock)))
     = [c8_late, c8_early] \<and>
   map QI_Job (items (queue (snd (loadPendingJobs (NewScheduler c8_small c8_store) c8_clock))))
     = [c8_late] \<and>
   jobMap (queue (snd (loadPendingJobs (NewScheduler c8_small c8_store) c8_clock))) = {''late''}"
  by code_simp


lemma Enqueue_full:
  "sint (maxSize q) \<le> int (length (items q)) \<Longrightarrow> Enqueue q job now = Inl (QueueFullError (maxSize q))"
  by (simp add: Enqueue_def)

lemma Enqueue_ok:
  "\<not> sint (maxSize q) \<le> int (length (items q)) \<Longrightarrow> Job_ID job \<notin> jobMap q \<Longrightarrow>
     Enqueue q job now = Inr (q\<lparr>items := heap_Push (items q) (new_item job now),
                                jobMap := insert (Job_ID job) (jobMap q)\<rparr>)"
  by (simp add: Enqueue_def new_item_def)

lemma enqueue_all_full:
  "sint (maxSize q) \<le> int (length (items q)) \<Longrightarrow> enqueue_all q js clk k = q"
  by (induction js arbitrary: k) (simp_all add: Enqueue_full)

lemma upt_Suc_shift: "[0 ..< Suc m] = 0 # map Suc [0 ..< m]"
  by (simp add: upt_conv_Cons map_Suc_upt del: upt_Suc)

lemma enqueue_all_spec:
  assumes "heap_ok (items q) (length (items q))" "distinct (map Job_ID js)"
    and "Job_ID ` set js \<inter> jobMap q = {}"
    and "m = min (length js) (nat (sint (maxSize q) - int (length (items q))))"
  shows "mset (items (enqueue_all q js clk k))
           = mset (items q) + mset (map (\<lambda>i. new_item (js ! i) (clk (k + i))) [0 ..< m]) \<and>
         jobMap (enqueue_all q js clk k) = jobMap q \<union> Job_ID ` set (take m js) \<and>
         maxSize (enqueue_all q js clk k) = maxSize q"
  using assms
proof (induction js arbitrary: q k m)
  case Nil
  then show ?case by simp
next
  case (Cons job rest)
  show ?case
  proof (cases "sint (maxSize q) \<le> int (length (items q))")
    case True
    then have m0: "m = 0" using Cons.prems(4) by simp
    show ?thesis unfolding enqueue_all_full [OF True] m0 by simp
  next
    case False
    from Cons.prems(3) have fresh: "Job_ID job \<notin> jobMap q" by auto
    let ?q = "q\<lparr>items := heap_Push (items q) (new_item job (clk k)),
                  jobMap := insert (Job_ID job) (jobMap q)\<rparr>"
    have step: "enqueue_all q (job # rest) clk k = enqueue_all ?q rest clk (Suc k)"
      by (simp add: Enqueue_ok [OF False fresh])
    note push = heap_Push_props [OF Cons.prems(1), of "new_item job (clk k)"]
    have ok: "heap_ok (items ?q) (length (items ?q))" using push(1,2) by simp
    have dist: "distinct (map Job_ID rest)" using Cons.prems(2) by simp
    have disj: "Job_ID ` set rest \<inter> jobMap ?q = {}"
      using Cons.prems(2,3) by auto
    define m' where "m' = min (length rest) (nat (sint (maxSize ?q) - int (length (items ?q))))"
    have m: "m = Suc m'"
      using False Cons.prems(4) push(2) unfolding m'_def by (simp add: min_def nat_diff_distrib) linarith
    from Cons.IH [OF ok dist disj m'_def, of "Suc k"]
    have ih: "mset (items (enqueue_all ?q rest clk (Suc k)))
           = mset (items ?q) + mset (map (\<lambda>i. new_item (rest ! i) (clk (Suc k + i))) [0 ..< m'])"
      "jobMap (enqueue_all ?q rest clk (Suc k)) = jobMap ?q \<union> Job_ID ` set (take m' rest)"
      "maxSize (enqueue_all ?q rest clk (Suc k)) = maxSize ?q"
      by simp_all
    have "map (\<lambda>i. new_item ((job # rest) ! i) (clk (k + i))) [0 ..< Suc m']
        = new_item job (clk k) # map (\<lambda>i. new_item (rest ! i) (clk (Suc k + i))) [0 ..< m']"
      unfolding upt_Suc_shift by (simp add: comp_def)
    with ih push(3) show ?thesis
      unfolding step m by simp
  qed
qed

text \<open>
  C8, amended: when the listing of the Pending jobs succeeds, startup enqueues them one
  after another in the order the repository lists them, the \<open>i\<close>-th at the \<open>i\<close>-th
  reading of the clock, until the queue is full: the queue then holds exactly one entry for
  each of the first \<open>min(number of pending jobs, max_queue_size)\<close> listed jobs, and the
  repository is untouched.
\<close>

theorem loadPendingJobs_in_listing_order:
  assumes "ListJobsByState st JobStatePending = Inr pending"
    and "distinct (map Job_ID pending)"
    and "m = min (length pending) (nat (sint (MaxQueueSize cfg)))"
  shows "fst (loadPendingJobs (NewScheduler cfg st) clk) = None \<and>
         mset (items (queue (snd (loadPendingJobs (NewScheduler cfg st) clk))))
           = mset (map (\<lambda>i. new_item (pending ! i) (clk i)) [0 ..< m]) \<and>
         jobMap (queue (snd (loadPendingJobs (NewScheduler cfg st) clk)))
           = Job_ID ` set (take m pending) \<and>
         storage (snd (loadPendingJobs (NewScheduler cfg st) clk)) = st"
proof -
  let ?q = "NewQueue (MaxQueueSize cfg)"
  have empty: "items ?q = []" "jobMap ?q = {}" "maxSize ?q = MaxQueueSize cfg"
    by (simp_all add: NewQueue_def heap_Init_def)
  have ok: "heap_ok (items ?q) (length (items ?q))" by (simp add: empty heap_ok_def)
  have disj: "Job_ID ` set pending \<inter> jobMap ?q = {}" by (simp add: empty)
  have m: "m = min (length pending) (nat (sint (maxSize ?q) - int (length (items ?q))))"
    using assms(3) by (simp add: empty)
  from enqueue_all_spec [OF ok assms(2) disj m, of clk 0]
  have "mset (items (enqueue_all ?q pending clk 0))
           = mset (map (\<lambda>i. new_item (pending ! i) (clk i)) [0 ..< m])"
    and "jobMap (enqueue_all ?q pending clk 0) = Job_ID ` set (take m pending)"
    by (simp_all add: empty)
  then show ?thesis
    using assms(1) by (simp add: loadPendingJobs_def NewScheduler_def)
qed


theorem loadPendingJobs_in_listing_order_witness:
  "ListJobsByState c8_store JobStatePending = Inr [c8_late, c8_early] \<and>
   distinct (map Job_ID [c8_late, c8_early]) \<and>
   fst (loadPendingJobs (NewScheduler c1_config c8_store) c8_clock) = None \<and>
   mset (items (queue (snd (loadPendingJobs (NewScheduler c1_config c8_store) c8_clock))))
     = {#new_item c8_late 100, new_item c8_early 101#} \<and>
   jobMap (queue (snd (loadPendingJobs (NewScheduler c1_config c8_store) c8_clock)))
     = {''late'', ''early''}"
proof -
  have list: "ListJobsByState c8_store JobStatePending = Inr [c8_late, c8_early]"
    by (simp add: c8_store_def c8_late_def c8_early_def ex_defs repo_defs)
  have dist: "distinct (map Job_ID [c8_late, c8_early])"
    by (simp add: c8_late_def c8_early_def)
  have m: "(2::nat) = min (length [c8_late, c8_early]) (nat (sint (MaxQueueSize c1_config)))"
    by (simp add: c1_config_def ex_config_def)
  have upt: "[0 ..< 2] = [0, Suc 0]" by (simp add: upt_conv_Cons)
  from loadPendingJobs_in_listing_order [OF list dist m, of c8_clock] list dist
  show ?thesis
    by (simp add: upt c8_clock_def c8_late_def c8_early_def insert_commute)
qed

end
